theory Spec2Isabelle
  imports Main "HOL-Library.Word" "HOL-Library.Multiset"
begin

section \<open>nginx-healthz: the client of the NGINX status API (client.go)\<close>

text \<open>
  The development follows \<^verbatim>\<open>client.go\<close>: the data decoded from the API, the
  validating constructor, the reduction of one upstream's peers to a \<^verbatim>\<open>Stats\<close>
  value, the hostname resolver over the zone map, and the concurrent aggregator.

  Conventions of the embedding.
  \<^item> Go's \<^verbatim>\<open>int\<close> is the 64-bit two's complement integer of a 64-bit target:
    a \<open>64 word\<close>, read with \<open>sint\<close>; \<open>+\<close> and \<open>-\<close> wrap as in Go.
    \<^verbatim>\<open>uint64\<close> is a \<open>64 word\<close> read with \<open>unat\<close>.
  \<^item> A Go \<^verbatim>\<open>error\<close> is a value of the datatype \<open>error\<close>; wrapping with
    \<^verbatim>\<open>%w\<close> keeps the wrapped error as an argument.
  \<^item> A function that returns \<^verbatim>\<open>(T, error)\<close> returns \<open>error + T\<close>; a function that
    can panic returns an \<open>outcome\<close>.
  \<^item> The HTTP server, the network and \<^verbatim>\<open>encoding/json\<close> are outside the
    repository; they are parameters (\<open>http_client\<close>, \<open>runtime\<close>).
\<close>

subsection \<open>Integers and errors\<close>

type_synonym go_int = "64 word"
type_synonym uint64 = "64 word"

text \<open>\<^verbatim>\<open>len(s)\<close> of a slice as a Go \<^verbatim>\<open>int\<close>.\<close>

definition len :: "'a list \<Rightarrow> go_int" where
  "len xs = of_nat (length xs)"

text \<open>
  The conversions \<^verbatim>\<open>uint64(x)\<close> of an \<^verbatim>\<open>int\<close> and \<^verbatim>\<open>int(x)\<close> of a
  \<^verbatim>\<open>uint64\<close>: both keep the 64 bits and change only how they are read.
\<close>

definition uint64 :: "go_int \<Rightarrow> uint64" where
  "uint64 x = x"

definition int_of_uint64 :: "uint64 \<Rightarrow> go_int" where
  "int_of_uint64 x = x"

datatype error =
    External string
  | NilHTTPClient
  | UnsupportedVersion go_int
  | InvalidBaseURL
  | NoServersInUpstream
  | RetrievingZones error
  | GettingStatsForHost string error
  | NoStatData string
  | CreatingRequest error
  | SendingRequest error
  | GotResponseCode go_int
  | ReadingResponseBody error
  | UnmarshalingResponseBody error

text \<open>A call either returns its results or panics.\<close>

datatype 'a outcome = Returns 'a | Panics

subsection \<open>The decoded upstream response\<close>

record ssl =
  Handshakes :: go_int
  HandshakesFailed :: go_int
  SessionReuses :: go_int

record codes =
  Num200 :: go_int
  Num301 :: go_int
  Num304 :: go_int
  Num400 :: go_int
  Num404 :: go_int
  Num405 :: go_int

record responses =
  OneXx :: go_int
  TwoXx :: go_int
  ThreeXx :: go_int
  FourXx :: go_int
  FiveXx :: go_int
  Codes :: codes
  responses_Total :: go_int

record health_checks =
  Checks :: go_int
  health_checks_Fails :: go_int
  Unhealthy :: go_int
  LastPassed :: bool

record peer =
  ID :: go_int
  Server :: string
  Name :: string
  Backup :: bool
  Weight :: go_int
  State :: string
  Active :: go_int
  Ssl :: ssl
  Requests :: go_int
  HeaderTime :: go_int
  ResponseTime :: go_int
  Responses :: responses
  Sent :: "64 word"
  Received :: "64 word"
  Fails :: go_int
  Unavail :: go_int
  HealthChecks :: health_checks
  Downtime :: go_int
  Selected :: string

record responseUpstream =
  Peers :: "peer list"
  Keepalive :: go_int
  Zombies :: go_int
  Zone :: string

record Stats =
  Total :: go_int
  Up :: go_int
  Down :: go_int

subsection \<open>calculateStatsFor\<close>

text \<open>
  The loop \<^verbatim>\<open>for _, p := range res.Peers { if p.State == "up" { up++ } }\<close>,
  with the counter \<^verbatim>\<open>up\<close> as accumulator.
\<close>

fun count_up :: "peer list \<Rightarrow> go_int \<Rightarrow> go_int" where
  "count_up [] up = up"
| "count_up (p # ps) up = count_up ps (if State p = ''up'' then up + 1 else up)"

text \<open>
  \<^verbatim>\<open>len(res.Peers) < 1\<close> is decided on the length itself: the length of a Go slice
  lies between 0 and the largest \<^verbatim>\<open>int\<close>, where the signed comparison and the
  comparison of the lengths agree.
\<close>

definition calculateStatsFor :: "string \<Rightarrow> responseUpstream \<Rightarrow> error + Stats" where
  "calculateStatsFor upstream res =
     (if length (Peers res) < 1 then Inl NoServersInUpstream
      else
        let total = len (Peers res);
            up = count_up (Peers res) 0;
            down = total - up
        in Inr \<lparr>Total = total, Up = up, Down = down\<rparr>)"

text \<open>A peer in the given state, every other field at Go's zero value.\<close>

definition peer_in_state :: "string \<Rightarrow> peer" where
  "peer_in_state st =
     \<lparr>ID = 0, Server = '''', Name = '''', Backup = False, Weight = 0, State = st, Active = 0,
      Ssl = \<lparr>Handshakes = 0, HandshakesFailed = 0, SessionReuses = 0\<rparr>,
      Requests = 0, HeaderTime = 0, ResponseTime = 0,
      Responses = \<lparr>OneXx = 0, TwoXx = 0, ThreeXx = 0, FourXx = 0, FiveXx = 0,
        Codes = \<lparr>Num200 = 0, Num301 = 0, Num304 = 0, Num400 = 0, Num404 = 0, Num405 = 0\<rparr>,
        responses_Total = 0\<rparr>,
      Sent = 0, Received = 0, Fails = 0, Unavail = 0,
      HealthChecks = \<lparr>Checks = 0, health_checks_Fails = 0, Unhealthy = 0, LastPassed = False\<rparr>,
      Downtime = 0, Selected = ''''\<rparr>"

definition upstream_of_states :: "string list \<Rightarrow> responseUpstream" where
  "upstream_of_states sts =
     \<lparr>Peers = map peer_in_state sts, Keepalive = 0, Zombies = 0, Zone = ''''\<rparr>"

subsection \<open>The client and its options\<close>

record request =
  Method :: string
  URL :: string
  Header :: "string \<rightharpoonup> string list"

text \<open>
  A response as \<^verbatim>\<open>get\<close> reads it: the status code and what
  \<^verbatim>\<open>io.ReadAll(resp.Body)\<close> yields.
\<close>

record response =
  StatusCode :: go_int
  Body :: "error + string"

text \<open>
  An \<^verbatim>\<open>*http.Client\<close> that is not nil is its method \<^verbatim>\<open>Do\<close>: the outcome of
  sending a request. The context of a call only travels to this method, so a cancelled
  or expired context is one of its errors.
\<close>

type_synonym http_client = "request \<Rightarrow> error + response"

record Client =
  version :: go_int
  baseURL :: string
  httpClient :: http_client

text \<open>
  \<^verbatim>\<open>type option func(*Client) error\<close>: the option updates the client or fails.
\<close>

type_synonym client_option = "Client \<Rightarrow> error + Client"

text \<open>The argument is a pointer: \<open>None\<close> is \<^verbatim>\<open>nil\<close>.\<close>

definition WithHTTPClient :: "http_client option \<Rightarrow> client_option" where
  "WithHTTPClient h c =
     (case h of
        None \<Rightarrow> Inl NilHTTPClient
      | Some h' \<Rightarrow> Inr (c\<lparr>httpClient := h'\<rparr>))"

definition WithVersion :: "go_int \<Rightarrow> client_option" where
  "WithVersion v c =
     (if v = 4 \<or> v = 5 \<or> v = 6 \<or> v = 7 \<or> v = 8 then Inr (c\<lparr>version := v\<rparr>)
      else Inl (UnsupportedVersion v))"

text \<open>
  What the program takes from Go's library and from the network: building a request
  (\<^verbatim>\<open>http.NewRequestWithContext\<close>, method and URL), \<^verbatim>\<open>json.Unmarshal\<close> into a
  \<^verbatim>\<open>responseUpstream\<close> and into an \<^verbatim>\<open>interface{}\<close>, and the client
  \<^verbatim>\<open>&http.Client{}\<close>.
\<close>

datatype go_value =
    VNil
  | VBool bool
  | VFloat64 "64 word"
  | VString string
  | VSlice "go_value list"
  | VMap "(string \<times> go_value) list"

text \<open>
  \<open>VMap\<close> is a \<^verbatim>\<open>map[string]interface{}\<close>: its keys are distinct, and the order
  of the list is the order in which a \<^verbatim>\<open>range\<close> over the map visits the entries,
  which Go leaves unspecified.
\<close>

record runtime =
  NewRequestWithContext :: "string \<Rightarrow> string \<Rightarrow> error + request"
  Unmarshal_responseUpstream :: "string \<Rightarrow> error + responseUpstream"
  Unmarshal_interface :: "string \<Rightarrow> error + go_value"
  DefaultClient :: http_client

text \<open>The loop \<^verbatim>\<open>for _, opt := range opts\<close> of \<^verbatim>\<open>NewClient\<close>.\<close>

fun apply_opts :: "client_option list \<Rightarrow> Client \<Rightarrow> error + Client" where
  "apply_opts [] c = Inr c"
| "apply_opts (opt # opts) c =
     (case opt c of
        Inl err \<Rightarrow> Inl err
      | Inr c' \<Rightarrow> apply_opts opts c')"

definition NewClient :: "runtime \<Rightarrow> string \<Rightarrow> client_option list \<Rightarrow> error + Client" where
  "NewClient rt base opts =
     (if base = [] then Inl InvalidBaseURL
      else apply_opts opts
             \<lparr>version = 8, baseURL = base, httpClient = DefaultClient rt\<rparr>)"

subsection \<open>Formatting and the transport\<close>

definition digit :: "nat \<Rightarrow> char" where
  "digit n = ''0123456789'' ! n"

function decimal :: "nat \<Rightarrow> string" where
  "decimal n = (if n < 10 then [digit n] else decimal (n div 10) @ [digit (n mod 10)])"
  by pat_completeness auto
termination
  by (relation "measure (\<lambda>n. n)") auto

declare decimal.simps [simp del]

text \<open>The verb \<^verbatim>\<open>%d\<close> of \<^verbatim>\<open>fmt.Sprintf\<close> on an \<^verbatim>\<open>int\<close>.\<close>

definition format_d :: "go_int \<Rightarrow> string" where
  "format_d x =
     (if sint x < 0 then ''-'' @ decimal (nat (- sint x)) else decimal (nat (sint x)))"

text \<open>
  \<^verbatim>\<open>get\<close>; the pointer \<^verbatim>\<open>data\<close> selects the decoder, which is passed in its
  place, and the decoded value is returned. The deferred \<^verbatim>\<open>resp.Body.Close()\<close> has
  no part in the result.
\<close>

definition get :: "runtime \<Rightarrow> Client \<Rightarrow> (string \<Rightarrow> error + 'a) \<Rightarrow> string \<Rightarrow> error + 'a" where
  "get rt c unmarshal url =
     (case NewRequestWithContext rt ''GET'' url of
        Inl err \<Rightarrow> Inl (CreatingRequest err)
      | Inr req \<Rightarrow>
          (case httpClient c
                  (req\<lparr>Header := (Header req)(''Content-Type'' \<mapsto> [''application/json''])\<rparr>) of
             Inl err \<Rightarrow> Inl (SendingRequest err)
           | Inr resp \<Rightarrow>
               if StatusCode resp \<noteq> 200 then Inl (GotResponseCode (StatusCode resp))
               else
                 (case Body resp of
                    Inl err \<Rightarrow> Inl (ReadingResponseBody err)
                  | Inr body \<Rightarrow>
                      (case unmarshal body of
                         Inl err \<Rightarrow> Inl (UnmarshalingResponseBody err)
                       | Inr data \<Rightarrow> Inr data))))"

definition GetStatsFor :: "runtime \<Rightarrow> Client \<Rightarrow> string \<Rightarrow> error + Stats" where
  "GetStatsFor rt c upstream =
     (case get rt c (Unmarshal_responseUpstream rt)
             (baseURL c @ ''/api/'' @ format_d (version c) @ ''/http/upstreams/'' @ upstream) of
        Inl err \<Rightarrow> Inl err
      | Inr res \<Rightarrow> calculateStatsFor upstream res)"

subsection \<open>The hostname resolver\<close>

text \<open>
  \<^verbatim>\<open>strings.Split(s, sep)\<close>: the pieces of \<open>s\<close> between the occurrences of
  \<open>sep\<close>, found from the left. The program calls it with the separator \<^verbatim>\<open>"-"\<close>
  only. With the empty separator Go cuts after each UTF-8 sequence; the equation for it
  cuts after each byte, which is the same on ASCII.
\<close>

function Split :: "string \<Rightarrow> string \<Rightarrow> string list" where
  "Split s sep =
     (if sep = [] then map (\<lambda>c. [c]) s
      else if s = [] then [[]]
      else if take (length sep) s = sep then [] # Split (drop (length sep) s) sep
      else (case Split (tl s) sep of
              [] \<Rightarrow> [[hd s]]
            | a # as \<Rightarrow> (hd s # a) # as))"
  by pat_completeness auto
termination
  by (relation "measure (\<lambda>(s, sep). length s)") auto

declare Split.simps [simp del]

text \<open>The index expression \<^verbatim>\<open>xs[0]\<close>, which panics on an empty slice.\<close>

definition index0 :: "'a list \<Rightarrow> 'a outcome" where
  "index0 xs = (case xs of [] \<Rightarrow> Panics | x # _ \<Rightarrow> Returns x)"

type_synonym hostmap = "string \<rightharpoonup> string list"

text \<open>
  One pass of the body of \<^verbatim>\<open>for u, v := range m\<close>, from the map
  \<^verbatim>\<open>hostUpstreams\<close> before it to the map after it. A failed type assertion with
  \<^verbatim>\<open>ok\<close> and a host other than the requested one \<^verbatim>\<open>continue\<close>. A key that
  is missing from \<^verbatim>\<open>value\<close> reads as \<^verbatim>\<open>nil\<close>, which is not a string.
\<close>

definition range_body :: "string \<Rightarrow> hostmap \<Rightarrow> string \<times> go_value \<Rightarrow> hostmap outcome" where
  "range_body hostname hostUpstreams entry =
     (case snd entry of
        VMap val \<Rightarrow>
          (case map_of val ''zone'' of
             Some (VString zone) \<Rightarrow>
               (case index0 (Split zone ''-'') of
                  Panics \<Rightarrow> Panics
                | Returns host \<Rightarrow>
                    if host \<noteq> hostname then Returns hostUpstreams
                    else
                      (case hostUpstreams host of
                         None \<Rightarrow> Returns (hostUpstreams(host \<mapsto> [fst entry]))
                       | Some ux \<Rightarrow> Returns (hostUpstreams(host \<mapsto> ux @ [fst entry]))))
           | _ \<Rightarrow> Returns hostUpstreams)
      | _ \<Rightarrow> Returns hostUpstreams)"

fun range_loop :: "string \<Rightarrow> (string \<times> go_value) list \<Rightarrow> hostmap \<Rightarrow> hostmap outcome" where
  "range_loop hostname [] hostUpstreams = Returns hostUpstreams"
| "range_loop hostname (entry # m) hostUpstreams =
     (case range_body hostname hostUpstreams entry of
        Panics \<Rightarrow> Panics
      | Returns hostUpstreams' \<Rightarrow> range_loop hostname m hostUpstreams')"

text \<open>
  \<^verbatim>\<open>m := res.(map[string]interface{})\<close> is a type assertion without \<^verbatim>\<open>ok\<close>:
  it panics on every value that is not such a map, \<^verbatim>\<open>nil\<close> included.
\<close>

definition hostnameUpstreamsFromResponse :: "string \<Rightarrow> go_value \<Rightarrow> hostmap outcome" where
  "hostnameUpstreamsFromResponse hostname res =
     (case res of
        VMap m \<Rightarrow> range_loop hostname m Map.empty
      | _ \<Rightarrow> Panics)"

definition GetUpstreamsFor :: "runtime \<Rightarrow> Client \<Rightarrow> string \<Rightarrow> (error + hostmap) outcome" where
  "GetUpstreamsFor rt c hostname =
     (case get rt c (Unmarshal_interface rt)
             (baseURL c @ ''/api/'' @ format_d (version c) @ ''/http/upstreams?fields=zone'') of
        Inl err \<Rightarrow> Returns (Inl (RetrievingZones err))
      | Inr resp \<Rightarrow>
          (case hostnameUpstreamsFromResponse hostname resp of
             Panics \<Rightarrow> Panics
           | Returns hostUpstreams \<Rightarrow> Returns (Inr hostUpstreams)))"

subsection \<open>The concurrent aggregator\<close>

text \<open>The shared variables \<^verbatim>\<open>var total, up, down uint64\<close>.\<close>

record counters =
  total :: uint64
  up :: uint64
  down :: uint64

text \<open>
  The statement \<^verbatim>\<open>return Stats{Total: int(total), Up: int(up), Down: int(down)}\<close>.
\<close>

definition read_counters :: "'a counters_scheme \<Rightarrow> Stats" where
  "read_counters s =
     \<lparr>Total = int_of_uint64 (total s), Up = int_of_uint64 (up s), Down = int_of_uint64 (down s)\<rparr>"

text \<open>
  A goroutine of \<^verbatim>\<open>GetStatsForUpstreams\<close> is at one of five places: launched with
  its upstream name, back from \<^verbatim>\<open>GetStatsFor\<close> with a \<^verbatim>\<open>Stats\<close> value, after
  the first and after the second \<^verbatim>\<open>atomic.AddUint64\<close>, and returned.
\<close>

datatype goroutine =
    Launched string
  | Fetched Stats
  | AddedTotal Stats
  | AddedUp Stats
  | Finished

text \<open>
  The state of a call: the shared variables, the counter of the \<^verbatim>\<open>WaitGroup\<close>,
  the upstream names the \<^verbatim>\<open>range\<close> loop of the calling goroutine has still to
  launch, and the goroutines launched so far.
\<close>

record conc_state = counters +
  wg :: int
  pending :: "string list"
  goroutines :: "goroutine list"

text \<open>
  The call starts with \<^verbatim>\<open>wg.Add(len(upstreams))\<close> and nothing launched.
\<close>

definition init_state :: "string list \<Rightarrow> conc_state" where
  "init_state upstreams =
     \<lparr>total = 0, up = 0, down = 0,
      wg = int (length upstreams), pending = upstreams, goroutines = []\<rparr>"

text \<open>A return of goroutine \<open>i\<close>, which runs the deferred \<^verbatim>\<open>wg.Done()\<close>.\<close>

definition goroutine_return :: "nat \<Rightarrow> conc_state \<Rightarrow> conc_state" where
  "goroutine_return i s = s\<lparr>wg := wg s - 1, goroutines := (goroutines s)[i := Finished]\<rparr>"

text \<open>
  One atomic step of goroutine \<open>i\<close>; \<open>None\<close> when there is no such goroutine or it has
  returned. The first argument is the method \<^verbatim>\<open>c.GetStatsFor(ctx, _)\<close>.
\<close>

definition goroutine_step ::
    "(string \<Rightarrow> error + Stats) \<Rightarrow> nat \<Rightarrow> conc_state \<Rightarrow> conc_state option" where
  "goroutine_step getStatsFor i s =
     (if length (goroutines s) \<le> i then None
      else
        (case goroutines s ! i of
           Launched upstream \<Rightarrow>
             (case getStatsFor upstream of
                Inl err \<Rightarrow> Some (goroutine_return i s)
              | Inr stat \<Rightarrow> Some (s\<lparr>goroutines := (goroutines s)[i := Fetched stat]\<rparr>))
         | Fetched stat \<Rightarrow>
             Some (s\<lparr>total := total s + uint64 (Total stat),
                     goroutines := (goroutines s)[i := AddedTotal stat]\<rparr>)
         | AddedTotal stat \<Rightarrow>
             Some (s\<lparr>up := up s + uint64 (Up stat),
                     goroutines := (goroutines s)[i := AddedUp stat]\<rparr>)
         | AddedUp stat \<Rightarrow>
             Some (goroutine_return i (s\<lparr>down := down s + uint64 (Down stat)\<rparr>))
         | Finished \<Rightarrow> None))"

text \<open>
  The scheduler picks either the calling goroutine, whose loop launches the goroutine
  for the next name, or a launched goroutine.
\<close>

datatype action = Launch | Run nat

definition step :: "(string \<Rightarrow> error + Stats) \<Rightarrow> action \<Rightarrow> conc_state \<Rightarrow> conc_state option" where
  "step getStatsFor a s =
     (case a of
        Launch \<Rightarrow>
          (case pending s of
             [] \<Rightarrow> None
           | u # us \<Rightarrow> Some (s\<lparr>pending := us, goroutines := goroutines s @ [Launched u]\<rparr>))
      | Run i \<Rightarrow> goroutine_step getStatsFor i s)"

fun exec :: "(string \<Rightarrow> error + Stats) \<Rightarrow> action list \<Rightarrow> conc_state \<Rightarrow> conc_state option" where
  "exec getStatsFor [] s = Some s"
| "exec getStatsFor (a # as) s =
     (case step getStatsFor a s of
        None \<Rightarrow> None
      | Some s' \<Rightarrow> exec getStatsFor as s')"

text \<open>
  \<^verbatim>\<open>wg.Wait()\<close> is reached after the loop and returns when the counter is zero.
\<close>

definition wait_returns :: "conc_state \<Rightarrow> bool" where
  "wait_returns s \<longleftrightarrow> pending s = [] \<and> wg s = 0"

text \<open>
  \<^verbatim>\<open>GetStatsForUpstreams\<close> under a schedule: the value returned when the schedule
  is a run of the goroutines up to the return of \<^verbatim>\<open>wg.Wait()\<close>, \<open>None\<close> when it
  is not such a run.
\<close>

definition GetStatsForUpstreams_run ::
    "(string \<Rightarrow> error + Stats) \<Rightarrow> action list \<Rightarrow> string list \<Rightarrow> Stats option" where
  "GetStatsForUpstreams_run getStatsFor sched upstreams =
     (case exec getStatsFor sched (init_state upstreams) of
        None \<Rightarrow> None
      | Some s \<Rightarrow> if wait_returns s then Some (read_counters s) else None)"

text \<open>
  The run in which each goroutine is launched and runs to its return before the next one
  is launched: a loop over the names.
\<close>

fun merge_loop :: "(string \<Rightarrow> error + Stats) \<Rightarrow> string list \<Rightarrow> counters \<Rightarrow> counters" where
  "merge_loop getStatsFor [] acc = acc"
| "merge_loop getStatsFor (upstream # upstreams) acc =
     merge_loop getStatsFor upstreams
       (case getStatsFor upstream of
          Inl err \<Rightarrow> acc
        | Inr stat \<Rightarrow>
            acc\<lparr>total := total acc + uint64 (Total stat),
                up := up acc + uint64 (Up stat),
                down := down acc + uint64 (Down stat)\<rparr>)"

text \<open>
  \<^verbatim>\<open>GetStatsForUpstreams\<close> as a function: the value of that run, which is the value
  of every run (lemma \<open>run_returns_GetStatsForUpstreams\<close> below).
\<close>

definition GetStatsForUpstreams :: "(string \<Rightarrow> error + Stats) \<Rightarrow> string list \<Rightarrow> Stats" where
  "GetStatsForUpstreams getStatsFor upstreams =
     read_counters (merge_loop getStatsFor upstreams \<lparr>total = 0, up = 0, down = 0\<rparr>)"

definition GetStatsForHost :: "runtime \<Rightarrow> Client \<Rightarrow> string \<Rightarrow> (error + Stats) outcome" where
  "GetStatsForHost rt c hostname =
     (case GetUpstreamsFor rt c hostname of
        Panics \<Rightarrow> Panics
      | Returns (Inl err) \<Rightarrow> Returns (Inl (GettingStatsForHost hostname err))
      | Returns (Inr upstreams) \<Rightarrow>
          (case upstreams hostname of
             None \<Rightarrow> Returns (Inl (NoStatData hostname))
           | Some ux \<Rightarrow> Returns (Inr (GetStatsForUpstreams (GetStatsFor rt c) ux))))"

subsection \<open>Notions used in the statements\<close>

text \<open>The \<^verbatim>\<open>Stats\<close> values of the names whose fetch succeeds, in the order of the names.\<close>

definition succeeded :: "(string \<Rightarrow> error + Stats) \<Rightarrow> string list \<Rightarrow> Stats list" where
  "succeeded getStatsFor upstreams =
     concat (map (\<lambda>u. case getStatsFor u of Inl err \<Rightarrow> [] | Inr stat \<Rightarrow> [stat]) upstreams)"

text \<open>What one name adds to a shared variable: a field of its \<^verbatim>\<open>Stats\<close>, or nothing.\<close>

definition contribution ::
    "(string \<Rightarrow> error + Stats) \<Rightarrow> (Stats \<Rightarrow> go_int) \<Rightarrow> string \<Rightarrow> uint64" where
  "contribution getStatsFor field u =
     (case getStatsFor u of Inl err \<Rightarrow> 0 | Inr stat \<Rightarrow> uint64 (field stat))"

text \<open>What a goroutine has still to add to each shared variable.\<close>

definition owed_total :: "(string \<Rightarrow> error + Stats) \<Rightarrow> goroutine \<Rightarrow> uint64" where
  "owed_total getStatsFor g =
     (case g of
        Launched u \<Rightarrow> contribution getStatsFor Total u
      | Fetched stat \<Rightarrow> uint64 (Total stat)
      | _ \<Rightarrow> 0)"

definition owed_up :: "(string \<Rightarrow> error + Stats) \<Rightarrow> goroutine \<Rightarrow> uint64" where
  "owed_up getStatsFor g =
     (case g of
        Launched u \<Rightarrow> contribution getStatsFor Up u
      | Fetched stat \<Rightarrow> uint64 (Up stat)
      | AddedTotal stat \<Rightarrow> uint64 (Up stat)
      | _ \<Rightarrow> 0)"

definition owed_down :: "(string \<Rightarrow> error + Stats) \<Rightarrow> goroutine \<Rightarrow> uint64" where
  "owed_down getStatsFor g =
     (case g of
        Launched u \<Rightarrow> contribution getStatsFor Down u
      | Fetched stat \<Rightarrow> uint64 (Down stat)
      | AddedTotal stat \<Rightarrow> uint64 (Down stat)
      | AddedUp stat \<Rightarrow> uint64 (Down stat)
      | Finished \<Rightarrow> 0)"

definition running :: "goroutine \<Rightarrow> nat" where
  "running g = (if g = Finished then 0 else 1)"

text \<open>An upper bound of the steps a goroutine has left, and of those of a whole call.\<close>

definition steps_left :: "goroutine \<Rightarrow> nat" where
  "steps_left g =
     (case g of
        Launched u \<Rightarrow> 4
      | Fetched stat \<Rightarrow> 3
      | AddedTotal stat \<Rightarrow> 2
      | AddedUp stat \<Rightarrow> 1
      | Finished \<Rightarrow> 0)"

definition work_left :: "conc_state \<Rightarrow> nat" where
  "work_left s = 5 * length (pending s) + sum_list (map steps_left (goroutines s))"

text \<open>
  The invariant of a call on the names \<open>upstreams\<close>: each shared variable together with
  what is still owed to it is the sum over all names, and the counter of the
  \<^verbatim>\<open>WaitGroup\<close> counts the goroutines that have not returned, launched or not.
\<close>

definition call_inv :: "(string \<Rightarrow> error + Stats) \<Rightarrow> string list \<Rightarrow> conc_state \<Rightarrow> bool" where
  "call_inv getStatsFor upstreams s \<longleftrightarrow>
     total s + sum_list (map (owed_total getStatsFor) (goroutines s))
             + sum_list (map (contribution getStatsFor Total) (pending s))
       = sum_list (map (contribution getStatsFor Total) upstreams) \<and>
     up s + sum_list (map (owed_up getStatsFor) (goroutines s))
          + sum_list (map (contribution getStatsFor Up) (pending s))
       = sum_list (map (contribution getStatsFor Up) upstreams) \<and>
     down s + sum_list (map (owed_down getStatsFor) (goroutines s))
            + sum_list (map (contribution getStatsFor Down) (pending s))
       = sum_list (map (contribution getStatsFor Down) upstreams) \<and>
     wg s = int (length (pending s)) + int (sum_list (map running (goroutines s)))"

text \<open>
  The invariant of a \<^verbatim>\<open>Stats\<close> value, read as Go reads the fields: as signed
  integers.
\<close>

definition stats_inv :: "Stats \<Rightarrow> bool" where
  "stats_inv s \<longleftrightarrow>
     sint (Up s) + sint (Down s) = sint (Total s) \<and>
     0 \<le> sint (Total s) \<and> 0 \<le> sint (Up s) \<and> 0 \<le> sint (Down s)"

text \<open>
  The hostname an entry of the zone map stands for: the part of its zone string before
  the first \<^verbatim>\<open>-\<close>, when the entry is a map whose \<^verbatim>\<open>zone\<close> is a string.
\<close>

definition zone_host :: "go_value \<Rightarrow> string option" where
  "zone_host v =
     (case v of
        VMap val \<Rightarrow>
          (case map_of val ''zone'' of
             Some (VString zone) \<Rightarrow> Some (takeWhile (\<lambda>ch. ch \<noteq> CHR ''-'') zone)
           | _ \<Rightarrow> None)
      | _ \<Rightarrow> None)"

text \<open>The upstream names of a zone map that stand for a hostname, in the order of the map.\<close>

definition matching :: "string \<Rightarrow> (string \<times> go_value) list \<Rightarrow> string list" where
  "matching hostname m = map fst (filter (\<lambda>entry. zone_host (snd entry) = Some hostname) m)"

subsection \<open>A server for the examples\<close>

text \<open>
  The examples run against a server in the manner of the tests of the repository: the
  zone map of \<^verbatim>\<open>validResponseGetUpstreamsZones\<close>, the upstream \<^verbatim>\<open>hg-backend\<close>
  with one peer up and one down, \<^verbatim>\<open>lxr-backend\<close> with two peers up,
  \<^verbatim>\<open>empty-backend\<close> without peers, and no answer for any other request. A body is
  named after the fixture it stands for.
\<close>

definition zone_entries :: "(string \<times> go_value) list" where
  "zone_entries =
     [(''demo-backend'', VMap [(''zone'', VString ''foo.example.com-demo-backend'')]),
      (''trac-backend'', VMap [(''zone'', VString ''bar.example.com-trac-backend'')]),
      (''hg-backend'', VMap [(''zone'', VString ''bar.example.org-hg-backend'')]),
      (''lxr-backend'', VMap [(''zone'', VString ''bar.example.org-lxr-backend'')])]"

definition validResponseGetUpstreamsZones :: go_value where
  "validResponseGetUpstreamsZones = VMap zone_entries"

definition test_server :: http_client where
  "test_server req =
     (if URL req = ''http://nginx/api/8/http/upstreams?fields=zone''
        then Inr \<lparr>StatusCode = 200, Body = Inr ''zones''\<rparr>
      else if URL req = ''http://nginx/api/8/http/upstreams/hg-backend''
        then Inr \<lparr>StatusCode = 200, Body = Inr ''hg''\<rparr>
      else if URL req = ''http://nginx/api/8/http/upstreams/lxr-backend''
        then Inr \<lparr>StatusCode = 200, Body = Inr ''lxr''\<rparr>
      else if URL req = ''http://nginx/api/8/http/upstreams/empty-backend''
        then Inr \<lparr>StatusCode = 200, Body = Inr ''empty''\<rparr>
      else Inl (External ''connection refused''))"

text \<open>A server that answers every request with the JSON array \<^verbatim>\<open>[]\<close>.\<close>

definition array_server :: http_client where
  "array_server req = Inr \<lparr>StatusCode = 200, Body = Inr ''[]''\<rparr>"

definition test_runtime :: runtime where
  "test_runtime =
     \<lparr>NewRequestWithContext =
        (\<lambda>method url.
           if take 1 url = '':'' then Inl (External ''missing protocol scheme'')
           else Inr \<lparr>Method = method, URL = url, Header = Map.empty\<rparr>),
      Unmarshal_responseUpstream =
        (\<lambda>body.
           if body = ''hg'' then Inr (upstream_of_states [''up'', ''down''])
           else if body = ''lxr'' then Inr (upstream_of_states [''up'', ''up''])
           else if body = ''empty'' then Inr (upstream_of_states [])
           else Inl (External ''cannot unmarshal'')),
      Unmarshal_interface =
        (\<lambda>body.
           if body = ''zones'' then Inr validResponseGetUpstreamsZones
           else if body = ''[]'' then Inr (VSlice [])
           else if body = ''null'' then Inr VNil
           else Inl (External ''invalid character'')),
      DefaultClient = test_server\<rparr>"

definition test_client :: Client where
  "test_client = \<lparr>version = 8, baseURL = ''http://nginx'', httpClient = test_server\<rparr>"

text \<open>
  A schedule for two names: both goroutines are launched, then their steps interleave,
  the second goroutine adding to \<^verbatim>\<open>total\<close> before the first.
\<close>

definition interleaved :: "action list" where
  "interleaved =
     [Launch, Run 0, Launch, Run 1, Run 1, Run 0, Run 1, Run 0, Run 0, Run 1]"

section \<open>Properties\<close>

subsection \<open>Machine integers\<close>

lemma sint_of_nat_small:
  "n < 2 ^ 63 \<Longrightarrow> sint (of_nat n :: 64 word) = int n"
  by (simp add: signed_of_nat signed_take_bit_int_eq_self)

lemma int_less_pow63: "int n < 2 ^ 63 \<longleftrightarrow> n < 2 ^ 63"
proof -
  have "int n < int (2 ^ 63) \<longleftrightarrow> n < 2 ^ 63"
    by (rule of_nat_less_iff)
  then show ?thesis
    by (simp only: of_nat_power of_nat_numeral)
qed

lemma sint_nonneg_uint:
  fixes w :: "64 word"
  assumes "0 \<le> sint w"
  shows "uint w < 2 ^ 63"
proof (rule ccontr)
  assume "\<not> uint w < 2 ^ 63"
  then have lo: "2 ^ 63 \<le> uint w"
    by (simp only: not_less)
  have hi: "uint w < 2 ^ 64"
    using uint_lt2p [of w] by simp
  have "sint w = signed_take_bit 63 (uint w)"
    by (simp add: sint_uint)
  also have "\<dots> = (uint w + 2 ^ 63) mod 2 ^ 64 - 2 ^ 63"
    by (simp add: signed_take_bit_eq_take_bit_shift take_bit_eq_mod)
  also have "(uint w + 2 ^ 63) mod 2 ^ 64 = uint w + 2 ^ 63 - 2 ^ 64"
    using lo hi by (simp add: mod_pos_geq)
  finally have "sint w < 0"
    using hi by simp
  with assms show False by simp
qed

lemma sint_uint_small:
  fixes w :: "64 word"
  assumes "uint w < 2 ^ 63"
  shows "sint w = uint w"
proof -
  have "sint w = signed_take_bit 63 (uint w)"
    by (simp add: sint_uint)
  also have "\<dots> = uint w"
  proof (rule signed_take_bit_int_eq_self)
    have "- (2 ^ 63) \<le> (0::int)" by simp
    also have "(0::int) \<le> uint w" by simp
    finally show "- (2 ^ 63) \<le> uint w" .
    show "uint w < 2 ^ 63" by (rule assms)
  qed
  finally show ?thesis .
qed

lemma of_int_sum_uint:
  fixes g :: "'a \<Rightarrow> 64 word"
  shows "of_int (sum_list (map (\<lambda>x. uint (g x)) xs)) = sum_list (map g xs)"
  by (induction xs) simp_all

lemma sum_uint_nonneg:
  fixes g :: "'a \<Rightarrow> 64 word"
  shows "0 \<le> sum_list (map (\<lambda>x. uint (g x)) xs)"
  by (induction xs) simp_all

lemma uint_of_int_small:
  assumes "0 \<le> k" and "k < 2 ^ 63"
  shows "uint (of_int k :: 64 word) = k"
proof -
  have "k < 2 ^ 64"
    using assms(2) by simp
  with assms(1) show ?thesis
    by (simp add: uint_word_of_int_eq take_bit_int_eq_self)
qed

lemma uint_sum_small:
  fixes g :: "'a \<Rightarrow> 64 word"
  assumes "sum_list (map (\<lambda>x. uint (g x)) xs) < 2 ^ 63"
  shows "uint (sum_list (map g xs)) = sum_list (map (\<lambda>x. uint (g x)) xs)"
  using uint_of_int_small [OF sum_uint_nonneg assms] by (simp only: of_int_sum_uint)

lemma uint_of_nat_small:
  assumes "n < 2 ^ 63"
  shows "uint (of_nat n :: 64 word) = int n"
proof -
  have "unat (of_nat n :: 64 word) = n"
    using assms by (simp add: unat_of_nat)
  then show ?thesis
    by (simp only: uint_nat)
qed

lemma signed_take_bit_add_right:
  "signed_take_bit n (a + signed_take_bit n b) = signed_take_bit n (a + b)" for a b :: int
proof -
  have "signed_take_bit n (a + signed_take_bit n b)
      = signed_take_bit n (signed_take_bit n a + signed_take_bit n (signed_take_bit n b))"
    by (simp only: signed_take_bit_add)
  also have "\<dots> = signed_take_bit n (signed_take_bit n a + signed_take_bit n b)"
    by (simp only: signed_take_bit_signed_take_bit min.idem)
  also have "\<dots> = signed_take_bit n (a + b)"
    by (simp only: signed_take_bit_add)
  finally show ?thesis .
qed

text \<open>The sum of 64-bit words, read as signed integers: the sum of the integers, wrapped.\<close>

lemma sint_sum_list:
  fixes g :: "'a \<Rightarrow> 64 word"
  shows "sint (sum_list (map g xs)) = signed_take_bit 63 (sum_list (map (\<lambda>x. sint (g x)) xs))"
proof (induction xs)
  case Nil
  show ?case by simp
next
  case (Cons x xs)
  have "sint (sum_list (map g (x # xs)))
      = signed_take_bit 63 (sint (g x) + sint (sum_list (map g xs)))"
    by (simp add: sint_word_add)
  also have "\<dots> = signed_take_bit 63 (sint (g x) + sum_list (map (\<lambda>x. sint (g x)) xs))"
    by (simp only: Cons.IH signed_take_bit_add_right)
  finally show ?case by simp
qed

lemma sint_sum_list_exact:
  fixes g :: "'a \<Rightarrow> 64 word"
  assumes "- (2 ^ 63) \<le> sum_list (map (\<lambda>x. sint (g x)) xs)"
    and "sum_list (map (\<lambda>x. sint (g x)) xs) < 2 ^ 63"
  shows "sint (sum_list (map g xs)) = sum_list (map (\<lambda>x. sint (g x)) xs)"
  unfolding sint_sum_list using assms by (rule signed_take_bit_int_eq_self)

subsection \<open>The reduction of one upstream\<close>

lemma count_up_filter:
  "count_up ps n = n + of_nat (length (filter (\<lambda>p. State p = ''up'') ps))"
proof (induction ps arbitrary: n)
  case Nil
  show ?case by simp
next
  case (Cons p ps)
  show ?case by (simp add: Cons.IH)
qed

lemma up_down_split:
  "length (filter (\<lambda>p. State p = ''up'') ps) + length (filter (\<lambda>p. State p \<noteq> ''up'') ps)
     = length ps"
  using sum_length_filter_compl [of "\<lambda>p. State p = ''up''" ps] by simp

lemma calculateStatsFor_value:
  assumes "Peers res \<noteq> []"
  shows "calculateStatsFor upstream res =
     Inr \<lparr>Total = of_nat (length (Peers res)),
          Up = of_nat (length (filter (\<lambda>p. State p = ''up'') (Peers res))),
          Down = of_nat (length (filter (\<lambda>p. State p \<noteq> ''up'') (Peers res)))\<rparr>"
proof -
  let ?ps = "Peers res"
  let ?u = "length (filter (\<lambda>p. State p = ''up'') ?ps)"
  let ?d = "length (filter (\<lambda>p. State p \<noteq> ''up'') ?ps)"
  have "(of_nat (length ?ps) :: 64 word) = of_nat ?u + of_nat ?d"
    by (simp only: up_down_split [of ?ps, symmetric] of_nat_add)
  then have "(of_nat (length ?ps) :: 64 word) - of_nat ?u = of_nat ?d"
    by simp
  with assms show ?thesis
    by (simp add: calculateStatsFor_def len_def count_up_filter Let_def)
qed

lemma calculateStatsFor_empty:
  "Peers res = [] \<Longrightarrow> calculateStatsFor upstream res = Inl NoServersInUpstream"
  by (simp add: calculateStatsFor_def)

lemma format_d_8: "format_d 8 = ''8''"
  by (simp add: format_d_def decimal.simps digit_def)

lemma Peers_upstream_of_states: "Peers (upstream_of_states sts) = map peer_in_state sts"
  by (simp add: upstream_of_states_def)

lemma State_peer_in_state: "State (peer_in_state st) = st"
  by (simp add: peer_in_state_def)

text \<open>The server of the examples, one step of \<open>get\<close> at a time.\<close>

lemma test_request:
  "take 1 url \<noteq> '':'' \<Longrightarrow>
   NewRequestWithContext test_runtime method url =
     Inr \<lparr>Method = method, URL = url, Header = Map.empty\<rparr>"
  by (simp add: test_runtime_def)

lemma get_test_runtime:
  assumes "take 1 url \<noteq> '':''"
    and "httpClient c \<lparr>Method = ''GET'', URL = url,
           Header = [''Content-Type'' \<mapsto> [''application/json'']]\<rparr>
         = Inr \<lparr>StatusCode = 200, Body = Inr body\<rparr>"
    and "unmarshal body = Inr data"
  shows "get test_runtime c unmarshal url = Inr data"
  using assms by (simp add: get_def test_request)

lemma test_server_zones:
  "URL req = ''http://nginx/api/8/http/upstreams?fields=zone'' \<Longrightarrow>
   test_server req = Inr \<lparr>StatusCode = 200, Body = Inr ''zones''\<rparr>"
  by (simp add: test_server_def)

lemma test_server_hg:
  "URL req = ''http://nginx/api/8/http/upstreams/hg-backend'' \<Longrightarrow>
   test_server req = Inr \<lparr>StatusCode = 200, Body = Inr ''hg''\<rparr>"
  by (simp add: test_server_def)

lemma test_server_lxr:
  "URL req = ''http://nginx/api/8/http/upstreams/lxr-backend'' \<Longrightarrow>
   test_server req = Inr \<lparr>StatusCode = 200, Body = Inr ''lxr''\<rparr>"
  by (simp add: test_server_def)

lemma test_server_empty:
  "URL req = ''http://nginx/api/8/http/upstreams/empty-backend'' \<Longrightarrow>
   test_server req = Inr \<lparr>StatusCode = 200, Body = Inr ''empty''\<rparr>"
  by (simp add: test_server_def)

lemma test_server_unreachable:
  "URL req = ''http://nginx/api/8/http/upstreams/unreachable'' \<Longrightarrow>
   test_server req = Inl (External ''connection refused'')"
  by (simp add: test_server_def)

lemma test_decode_upstream:
  "Unmarshal_responseUpstream test_runtime ''hg'' = Inr (upstream_of_states [''up'', ''down''])"
  "Unmarshal_responseUpstream test_runtime ''lxr'' = Inr (upstream_of_states [''up'', ''up''])"
  "Unmarshal_responseUpstream test_runtime ''empty'' = Inr (upstream_of_states [])"
  by (simp_all add: test_runtime_def)

lemma test_decode_interface:
  "Unmarshal_interface test_runtime ''zones'' = Inr validResponseGetUpstreamsZones"
  "Unmarshal_interface test_runtime ''[]'' = Inr (VSlice [])"
  by (simp_all add: test_runtime_def)

lemma test_client_fields:
  "version test_client = 8" "baseURL test_client = ''http://nginx''"
  "httpClient test_client = test_server"
  by (simp_all add: test_client_def)

lemma test_client_url:
  "baseURL test_client @ ''/api/'' @ format_d (version test_client) @ path
     = ''http://nginx/api/8'' @ path"
  by (simp add: test_client_fields format_d_8)

lemma get_upstream_hg:
  "get test_runtime test_client (Unmarshal_responseUpstream test_runtime)
     ''http://nginx/api/8/http/upstreams/hg-backend'' = Inr (upstream_of_states [''up'', ''down''])"
  by (rule get_test_runtime [where body = "''hg''"])
     (simp_all add: test_client_fields test_server_hg test_decode_upstream)

lemma get_upstream_lxr:
  "get test_runtime test_client (Unmarshal_responseUpstream test_runtime)
     ''http://nginx/api/8/http/upstreams/lxr-backend'' = Inr (upstream_of_states [''up'', ''up''])"
  by (rule get_test_runtime [where body = "''lxr''"])
     (simp_all add: test_client_fields test_server_lxr test_decode_upstream)

lemma get_upstream_empty:
  "get test_runtime test_client (Unmarshal_responseUpstream test_runtime)
     ''http://nginx/api/8/http/upstreams/empty-backend'' = Inr (upstream_of_states [])"
  by (rule get_test_runtime [where body = "''empty''"])
     (simp_all add: test_client_fields test_server_empty test_decode_upstream)

lemma get_zones:
  "get test_runtime test_client (Unmarshal_interface test_runtime)
     ''http://nginx/api/8/http/upstreams?fields=zone'' = Inr validResponseGetUpstreamsZones"
  by (rule get_test_runtime [where body = "''zones''"])
     (simp_all add: test_client_fields test_server_zones test_decode_interface)

lemma calculateStatsFor_up_down:
  "calculateStatsFor upstream (upstream_of_states [''up'', ''down''])
     = Inr \<lparr>Total = 2, Up = 1, Down = 1\<rparr>"
  by (simp add: calculateStatsFor_def len_def Peers_upstream_of_states State_peer_in_state)

lemma calculateStatsFor_up_up:
  "calculateStatsFor upstream (upstream_of_states [''up'', ''up''])
     = Inr \<lparr>Total = 2, Up = 2, Down = 0\<rparr>"
  by (simp add: calculateStatsFor_def len_def Peers_upstream_of_states State_peer_in_state)

lemma GetStatsFor_hg:
  "GetStatsFor test_runtime test_client ''hg-backend'' = Inr \<lparr>Total = 2, Up = 1, Down = 1\<rparr>"
  unfolding GetStatsFor_def test_client_url
  by (simp add: get_upstream_hg calculateStatsFor_up_down)

lemma GetStatsFor_lxr:
  "GetStatsFor test_runtime test_client ''lxr-backend'' = Inr \<lparr>Total = 2, Up = 2, Down = 0\<rparr>"
  unfolding GetStatsFor_def test_client_url
  by (simp add: get_upstream_lxr calculateStatsFor_up_up)

lemma GetStatsFor_unreachable:
  "GetStatsFor test_runtime test_client ''unreachable''
     = Inl (SendingRequest (External ''connection refused''))"
  unfolding GetStatsFor_def test_client_url
  by (simp add: get_def test_request test_client_fields test_server_unreachable)


text \<open>
  C2. For a non-empty peer list (of a length a Go slice can have), \<open>calculateStatsFor\<close>
  returns a \<open>Stats\<close> value and no error; its \<open>Total\<close> is the number of peers, its
  \<open>Up\<close> the number of peers whose state is the string \<open>up\<close>, and its \<open>Down\<close> is
  \<open>Total\<close> minus \<open>Up\<close>, which is the number of peers in any other state.
  \<open>GetStatsFor\<close> returns this value when the response decodes to the peer list.
\<close>

theorem calculateStatsFor_counts:
  assumes "Peers res \<noteq> []" and "length (Peers res) < 2 ^ 63"
  shows "\<exists>s. calculateStatsFor upstream res = Inr s
     \<and> sint (Total s) = int (length (Peers res))
     \<and> sint (Up s) = int (length (filter (\<lambda>p. State p = ''up'') (Peers res)))
     \<and> sint (Down s) = sint (Total s) - sint (Up s)
     \<and> sint (Down s) = int (length (filter (\<lambda>p. State p \<noteq> ''up'') (Peers res)))
     \<and> (get rt c (Unmarshal_responseUpstream rt)
            (baseURL c @ ''/api/'' @ format_d (version c) @ ''/http/upstreams/'' @ upstream)
           = Inr res \<longrightarrow> GetStatsFor rt c upstream = Inr s)"
proof -
  let ?ps = "Peers res"
  let ?u = "length (filter (\<lambda>p. State p = ''up'') ?ps)"
  let ?d = "length (filter (\<lambda>p. State p \<noteq> ''up'') ?ps)"
  have split: "?u + ?d = length ?ps"
    by (rule up_down_split)
  have ub: "?u < 2 ^ 63" and db: "?d < 2 ^ 63"
    using split assms(2) by linarith+
  note eq = calculateStatsFor_value [OF assms(1), of upstream]
  have st: "sint (of_nat (length ?ps) :: 64 word) = int (length ?ps)"
    using assms(2) by (rule sint_of_nat_small)
  have su: "sint (of_nat ?u :: 64 word) = int ?u"
    using ub by (rule sint_of_nat_small)
  have sd: "sint (of_nat ?d :: 64 word) = int ?d"
    using db by (rule sint_of_nat_small)
  have "int ?d = int (length ?ps) - int ?u"
    using split by linarith
  then show ?thesis
    by (simp add: eq st su sd GetStatsFor_def)
qed

theorem calculateStatsFor_counts_witness:
  "Peers (upstream_of_states [''up'', ''unavail'', ''unhealthy'', ''down'', ''checking'']) \<noteq> []
   \<and> length (Peers (upstream_of_states [''up'', ''unavail'', ''unhealthy'', ''down'', ''checking'']))
       < 2 ^ 63
   \<and> (\<exists>s. calculateStatsFor ''demo-backend''
             (upstream_of_states [''up'', ''unavail'', ''unhealthy'', ''down'', ''checking''])
           = Inr s
         \<and> sint (Total s) = 5 \<and> sint (Up s) = 1 \<and> sint (Down s) = 4)"
proof -
  let ?res = "upstream_of_states [''up'', ''unavail'', ''unhealthy'', ''down'', ''checking'']"
  have h1: "Peers ?res \<noteq> []"
    by (simp add: Peers_upstream_of_states)
  have h2: "length (Peers ?res) < 2 ^ 63"
    by (simp add: Peers_upstream_of_states)
  from calculateStatsFor_counts [OF h1 h2, of "''demo-backend''" test_runtime test_client]
  obtain s where "calculateStatsFor ''demo-backend'' ?res = Inr s"
    and "sint (Total s) = int (length (Peers ?res))"
    and "sint (Up s) = int (length (filter (\<lambda>p. State p = ''up'') (Peers ?res)))"
    and "sint (Down s) = sint (Total s) - sint (Up s)"
    by blast
  then have "calculateStatsFor ''demo-backend'' ?res = Inr s
      \<and> sint (Total s) = 5 \<and> sint (Up s) = 1 \<and> sint (Down s) = 4"
    by (simp add: Peers_upstream_of_states State_peer_in_state)
  with h1 h2 show ?thesis by blast
qed

text \<open>
  C5. \<open>calculateStatsFor\<close> returns an error exactly when the peer list is empty, and
  the error is the one for an upstream without servers; so \<open>GetStatsFor\<close> on a response
  that decodes to zero peers fails with it and returns no \<open>Stats\<close> value.
\<close>

theorem calculateStatsFor_error_iff_empty:
  "((\<exists>err. calculateStatsFor upstream res = Inl err) \<longleftrightarrow> Peers res = [])
   \<and> (\<forall>err. calculateStatsFor upstream res = Inl err \<longrightarrow> err = NoServersInUpstream)
   \<and> (Peers res = [] \<longrightarrow> (\<forall>s. calculateStatsFor upstream res \<noteq> Inr s))
   \<and> (get rt c (Unmarshal_responseUpstream rt)
          (baseURL c @ ''/api/'' @ format_d (version c) @ ''/http/upstreams/'' @ upstream)
         = Inr res \<and> Peers res = []
       \<longrightarrow> GetStatsFor rt c upstream = Inl NoServersInUpstream)"
proof (cases "Peers res = []")
  case True
  then show ?thesis
    by (simp add: calculateStatsFor_empty GetStatsFor_def)
next
  case False
  then show ?thesis
    by (simp add: calculateStatsFor_value)
qed

theorem calculateStatsFor_error_iff_empty_witness:
  "Peers (upstream_of_states []) = []
   \<and> calculateStatsFor ''empty-backend'' (upstream_of_states []) = Inl NoServersInUpstream
   \<and> GetStatsFor test_runtime test_client ''empty-backend'' = Inl NoServersInUpstream"
proof -
  let ?res = "upstream_of_states []"
  have e: "Peers ?res = []"
    by (simp add: Peers_upstream_of_states)
  have g: "get test_runtime test_client (Unmarshal_responseUpstream test_runtime)
      (baseURL test_client @ ''/api/'' @ format_d (version test_client) @ ''/http/upstreams/''
        @ ''empty-backend'') = Inr ?res"
    unfolding test_client_url by (simp add: get_upstream_empty)
  note inst = calculateStatsFor_error_iff_empty
    [of "''empty-backend''" ?res test_runtime test_client]
  from inst e obtain err where c: "calculateStatsFor ''empty-backend'' ?res = Inl err"
    by blast
  from inst c have err: "err = NoServersInUpstream"
    by blast
  from inst g e
  have "GetStatsFor test_runtime test_client ''empty-backend'' = Inl NoServersInUpstream"
    by blast
  with e c err show ?thesis by simp
qed

subsection \<open>The runs of the concurrent aggregator\<close>

lemma sum_list_map_update:
  fixes g :: "'a \<Rightarrow> 'b::comm_monoid_add"
  shows "i < length xs \<Longrightarrow>
    sum_list (map g (xs[i := y])) + g (xs ! i) = sum_list (map g xs) + g y"
proof (induction xs arbitrary: i)
  case Nil
  then show ?case by simp
next
  case (Cons x xs)
  show ?case
  proof (cases i)
    case 0
    then show ?thesis by (simp add: add.commute add.left_commute)
  next
    case (Suc j)
    with Cons.prems have "j < length xs" by simp
    from Cons.IH [OF this] have "g x + (sum_list (map g (xs[j := y])) + g (xs ! j)) = g x + (sum_list (map g xs) + g y)"
      by simp
    then show ?thesis using Suc by (simp add: add.assoc)
  qed
qed

lemma sum_list_map_update_word:
  fixes g :: "'a \<Rightarrow> 64 word"
  assumes "i < length xs"
  shows "sum_list (map g (xs[i := y])) = sum_list (map g xs) + g y - g (xs ! i)"
  using sum_list_map_update [OF assms, of g y] by (simp add: algebra_simps)


lemma goroutine_step_inv:
  assumes inv: "call_inv f ups s" and st: "goroutine_step f i s = Some s'"
  shows "call_inv f ups s'"
proof -
  from st have i: "i < length (goroutines s)"
    by (auto simp: goroutine_step_def split: if_splits)
  note upd = sum_list_map_update_word [OF i]
  have r: "int (sum_list (map running ((goroutines s)[i := g]))) =
           int (sum_list (map running (goroutines s))) + int (running g) - int (running (goroutines s ! i))" for g
    using sum_list_map_update [OF i, of running g] by linarith
  show ?thesis
  proof (cases "goroutines s ! i")
    case (Launched u)
    show ?thesis
    proof (cases "f u")
      case (Inl e)
      with Launched st i have s': "s' = goroutine_return i s"
        by (simp add: goroutine_step_def)
      show ?thesis using inv Launched Inl
        by (simp add: s' call_inv_def goroutine_return_def upd r owed_total_def owed_up_def
            owed_down_def contribution_def running_def)
    next
      case (Inr stat)
      with Launched st i have s': "s' = s\<lparr>goroutines := (goroutines s)[i := Fetched stat]\<rparr>"
        by (simp add: goroutine_step_def)
      show ?thesis using inv Launched Inr
        by (simp add: s' call_inv_def upd r owed_total_def owed_up_def
            owed_down_def contribution_def running_def)
    qed
  next
    case (Fetched stat)
    with st i have s': "s' = s\<lparr>total := total s + uint64 (Total stat),
                     goroutines := (goroutines s)[i := AddedTotal stat]\<rparr>"
      by (simp add: goroutine_step_def)
    show ?thesis using inv Fetched
      by (simp add: s' call_inv_def upd r owed_total_def owed_up_def
          owed_down_def running_def)
  next
    case (AddedTotal stat)
    with st i have s': "s' = s\<lparr>up := up s + uint64 (Up stat),
                     goroutines := (goroutines s)[i := AddedUp stat]\<rparr>"
      by (simp add: goroutine_step_def)
    show ?thesis using inv AddedTotal
      by (simp add: s' call_inv_def upd r owed_total_def owed_up_def
          owed_down_def running_def)
  next
    case (AddedUp stat)
    with st i have s': "s' = goroutine_return i (s\<lparr>down := down s + uint64 (Down stat)\<rparr>)"
      by (simp add: goroutine_step_def)
    show ?thesis using inv AddedUp
      by (simp add: s' call_inv_def goroutine_return_def upd r owed_total_def owed_up_def
          owed_down_def running_def)
  next
    case Finished
    with st i show ?thesis by (simp add: goroutine_step_def)
  qed
qed


lemma step_inv:
  assumes inv: "call_inv f ups s" and st: "step f a s = Some s'"
  shows "call_inv f ups s'"
proof (cases a)
  case Launch
  with st obtain u us where p: "pending s = u # us"
    and s': "s' = s\<lparr>pending := us, goroutines := goroutines s @ [Launched u]\<rparr>"
    by (auto simp: step_def split: list.splits)
  show ?thesis using inv
    by (simp add: s' p call_inv_def owed_total_def owed_up_def owed_down_def running_def
        add.assoc)
next
  case (Run i)
  with st have "goroutine_step f i s = Some s'" by (simp add: step_def)
  with inv show ?thesis by (rule goroutine_step_inv)
qed

lemma exec_inv:
  "call_inv f ups s \<Longrightarrow> exec f sched s = Some s' \<Longrightarrow> call_inv f ups s'"
proof (induction sched arbitrary: s)
  case Nil
  then show ?case by simp
next
  case (Cons a sched)
  from Cons.prems(2) obtain s1 where a: "step f a s = Some s1" and r: "exec f sched s1 = Some s'"
    by (auto split: option.splits)
  from Cons.prems(1) a have "call_inv f ups s1" by (rule step_inv)
  then show ?case using r by (rule Cons.IH)
qed

lemma init_inv: "call_inv f ups (init_state ups)"
  by (simp add: call_inv_def init_state_def)

lemma running_zero_owed:
  assumes "sum_list (map running gs) = 0"
  shows "sum_list (map (owed_total f) gs) = 0 \<and> sum_list (map (owed_up f) gs) = 0
       \<and> sum_list (map (owed_down f) gs) = 0"
  using assms
proof (induction gs)
  case Nil
  show ?case by simp
next
  case (Cons g gs)
  from Cons.prems have g: "g = Finished" and rest: "sum_list (map running gs) = 0"
    by (auto simp: running_def split: if_splits)
  from Cons.IH [OF rest] show ?case
    by (simp add: g owed_total_def owed_up_def owed_down_def)
qed

lemma inv_at_return:
  assumes inv: "call_inv f ups s" and w: "wait_returns s"
  shows "read_counters s =
     \<lparr>Total = sum_list (map (contribution f Total) ups),
      Up = sum_list (map (contribution f Up) ups),
      Down = sum_list (map (contribution f Down) ups)\<rparr>"
proof -
  from w have p: "pending s = []" and z: "wg s = 0" by (simp_all add: wait_returns_def)
  from inv p z have "sum_list (map running (goroutines s)) = 0"
    by (simp add: call_inv_def)
  from running_zero_owed [OF this, of f] inv p show ?thesis
    by (simp add: call_inv_def read_counters_def int_of_uint64_def)
qed

lemma merge_loop_sums:
  "total (merge_loop f ups acc) = total acc + sum_list (map (contribution f Total) ups) \<and>
   up (merge_loop f ups acc) = up acc + sum_list (map (contribution f Up) ups) \<and>
   down (merge_loop f ups acc) = down acc + sum_list (map (contribution f Down) ups)"
proof (induction ups arbitrary: acc)
  case Nil
  show ?case by simp
next
  case (Cons u ups)
  show ?case
    by (cases "f u") (simp_all add: Cons.IH contribution_def add.assoc)
qed

lemma GetStatsForUpstreams_sums:
  "GetStatsForUpstreams f ups =
     \<lparr>Total = sum_list (map (contribution f Total) ups),
      Up = sum_list (map (contribution f Up) ups),
      Down = sum_list (map (contribution f Down) ups)\<rparr>"
  by (simp add: GetStatsForUpstreams_def read_counters_def int_of_uint64_def merge_loop_sums)

lemma run_returns_GetStatsForUpstreams:
  assumes "GetStatsForUpstreams_run f sched ups = Some r"
  shows "r = GetStatsForUpstreams f ups"
proof -
  from assms obtain s where e: "exec f sched (init_state ups) = Some s"
    and w: "wait_returns s" and r: "r = read_counters s"
    by (auto simp: GetStatsForUpstreams_run_def split: option.splits if_splits)
  from init_inv e have "call_inv f ups s" by (rule exec_inv)
  from inv_at_return [OF this w] show ?thesis
    by (simp add: r GetStatsForUpstreams_sums)
qed

lemma contribution_succeeded:
  "sum_list (map (contribution f field) ups) = sum_list (map field (succeeded f ups))"
proof (induction ups)
  case Nil
  show ?case by (simp add: succeeded_def)
next
  case (Cons u ups)
  then show ?case
    by (cases "f u") (simp_all add: succeeded_def contribution_def uint64_def)
qed


lemma goroutine_step_work:
  assumes st: "goroutine_step f i s = Some s'"
  shows "work_left s' < work_left s"
proof -
  from st have i: "i < length (goroutines s)"
    by (auto simp: goroutine_step_def split: if_splits)
  have upd: "sum_list (map steps_left ((goroutines s)[i := g])) + steps_left (goroutines s ! i)
      = sum_list (map steps_left (goroutines s)) + steps_left g" for g
    by (rule sum_list_map_update [OF i])
  show ?thesis
  proof (cases "goroutines s ! i")
    case (Launched u)
    show ?thesis
    proof (cases "f u")
      case (Inl e)
      with Launched st i have s': "s' = goroutine_return i s"
        by (simp add: goroutine_step_def)
      show ?thesis using upd [of Finished] Launched
        by (simp add: s' work_left_def goroutine_return_def steps_left_def)
    next
      case (Inr stat)
      with Launched st i have s': "s' = s\<lparr>goroutines := (goroutines s)[i := Fetched stat]\<rparr>"
        by (simp add: goroutine_step_def)
      show ?thesis using upd [of "Fetched stat"] Launched
        by (simp add: s' work_left_def steps_left_def)
    qed
  next
    case (Fetched stat)
    with st i have s': "s' = s\<lparr>total := total s + uint64 (Total stat),
                     goroutines := (goroutines s)[i := AddedTotal stat]\<rparr>"
      by (simp add: goroutine_step_def)
    show ?thesis using upd [of "AddedTotal stat"] Fetched
      by (simp add: s' work_left_def steps_left_def)
  next
    case (AddedTotal stat)
    with st i have s': "s' = s\<lparr>up := up s + uint64 (Up stat),
                     goroutines := (goroutines s)[i := AddedUp stat]\<rparr>"
      by (simp add: goroutine_step_def)
    show ?thesis using upd [of "AddedUp stat"] AddedTotal
      by (simp add: s' work_left_def steps_left_def)
  next
    case (AddedUp stat)
    with st i have s': "s' = goroutine_return i (s\<lparr>down := down s + uint64 (Down stat)\<rparr>)"
      by (simp add: goroutine_step_def)
    show ?thesis using upd [of Finished] AddedUp
      by (simp add: s' work_left_def goroutine_return_def steps_left_def)
  next
    case Finished
    with st i show ?thesis by (simp add: goroutine_step_def)
  qed
qed

lemma step_work:
  assumes st: "step f a s = Some s'"
  shows "work_left s' < work_left s"
proof (cases a)
  case Launch
  with st obtain u us where p: "pending s = u # us"
    and s': "s' = s\<lparr>pending := us, goroutines := goroutines s @ [Launched u]\<rparr>"
    by (auto simp: step_def split: list.splits)
  show ?thesis by (simp add: s' p work_left_def steps_left_def)
next
  case (Run i)
  with st have "goroutine_step f i s = Some s'" by (simp add: step_def)
  then show ?thesis by (rule goroutine_step_work)
qed

lemma exec_length:
  "exec f sched s = Some s' \<Longrightarrow> length sched + work_left s' \<le> work_left s"
proof (induction sched arbitrary: s)
  case Nil
  then show ?case by simp
next
  case (Cons a sched)
  from Cons.prems obtain s1 where a: "step f a s = Some s1" and r: "exec f sched s1 = Some s'"
    by (auto split: option.splits)
  from step_work [OF a] Cons.IH [OF r] show ?case by simp
qed

lemma all_finished_running:
  "\<forall>g\<in>set gs. g = Finished \<Longrightarrow> sum_list (map running gs) = 0"
  by (induction gs) (simp_all add: running_def)

lemma running_goroutine:
  assumes "sum_list (map running gs) \<noteq> 0"
  shows "\<exists>i<length gs. gs ! i \<noteq> Finished"
proof -
  have "\<not> (\<forall>g\<in>set gs. g = Finished)"
  proof
    assume "\<forall>g\<in>set gs. g = Finished"
    then have "sum_list (map running gs) = 0" by (rule all_finished_running)
    with assms show False by contradiction
  qed
  then obtain g where "g \<in> set gs" "g \<noteq> Finished"
    by auto
  then show ?thesis by (metis in_set_conv_nth)
qed

lemma goroutine_step_enabled:
  assumes "i < length (goroutines s)" and "goroutines s ! i \<noteq> Finished"
  shows "\<exists>s'. goroutine_step f i s = Some s'"
  using assms
  by (cases "goroutines s ! i")
     (auto simp: goroutine_step_def split: sum.splits)

lemma progress:
  assumes inv: "call_inv f ups s" and nw: "\<not> wait_returns s"
  shows "\<exists>a s'. step f a s = Some s'"
proof (cases "pending s")
  case (Cons u us)
  then have "step f Launch s = Some (s\<lparr>pending := us, goroutines := goroutines s @ [Launched u]\<rparr>)"
    by (simp add: step_def)
  then show ?thesis by blast
next
  case Nil
  with nw have "wg s \<noteq> 0" by (simp add: wait_returns_def)
  with inv Nil have "sum_list (map running (goroutines s)) \<noteq> 0"
    unfolding call_inv_def by auto
  from running_goroutine [OF this] obtain i
    where i: "i < length (goroutines s)" "goroutines s ! i \<noteq> Finished" by blast
  from goroutine_step_enabled [OF i, of f] obtain s' where "goroutine_step f i s = Some s'" by blast
  then have "step f (Run i) s = Some s'" by (simp add: step_def)
  then show ?thesis by blast
qed

lemma completes:
  "call_inv f ups s \<Longrightarrow> \<exists>sched s'. exec f sched s = Some s' \<and> wait_returns s'"
proof (induction "work_left s" arbitrary: s rule: less_induct)
  case less
  show ?case
  proof (cases "wait_returns s")
    case True
    then have "exec f [] s = Some s \<and> wait_returns s" by simp
    then show ?thesis by blast
  next
    case False
    from progress [OF less.prems False] obtain a s1 where a: "step f a s = Some s1" by blast
    from less.prems a have inv1: "call_inv f ups s1" by (rule step_inv)
    from less.hyps [OF step_work [OF a] inv1] obtain sched s'
      where "exec f sched s1 = Some s'" "wait_returns s'" by blast
    with a have "exec f (a # sched) s = Some s' \<and> wait_returns s'" by simp
    then show ?thesis by blast
  qed
qed

lemma run_exists:
  "\<exists>sched. GetStatsForUpstreams_run f sched ups = Some (GetStatsForUpstreams f ups)"
proof -
  from completes [OF init_inv, of f ups] obtain sched s
    where e: "exec f sched (init_state ups) = Some s" and w: "wait_returns s" by blast
  then have r: "GetStatsForUpstreams_run f sched ups = Some (read_counters s)"
    by (simp add: GetStatsForUpstreams_run_def)
  from run_returns_GetStatsForUpstreams [OF r] r show ?thesis by auto
qed

lemma GetStatsForUpstreams_succeeded:
  "GetStatsForUpstreams f ups =
     \<lparr>Total = sum_list (map Total (succeeded f ups)),
      Up = sum_list (map Up (succeeded f ups)),
      Down = sum_list (map Down (succeeded f ups))\<rparr>"
  by (simp add: GetStatsForUpstreams_sums contribution_succeeded)

lemma succeeded_append:
  "succeeded f (xs @ ys) = succeeded f xs @ succeeded f ys"
  by (simp add: succeeded_def)

lemma succeeded_failure:
  "f u = Inl err \<Longrightarrow> succeeded f (xs @ u # ys) = succeeded f (xs @ ys)"
  by (simp add: succeeded_def)

lemma sum_list_map_mset:
  fixes g :: "'a \<Rightarrow> 64 word"
  shows "mset xs = mset ys \<Longrightarrow> sum_list (map g xs) = sum_list (map g ys)"
proof -
  assume "mset xs = mset ys"
  then have "mset (map g xs) = mset (map g ys)"
    by simp
  then have "sum_mset (mset (map g xs)) = sum_mset (mset (map g ys))"
    by (rule arg_cong)
  then show ?thesis
    by (simp only: sum_mset_sum_list)
qed

lemma GetStatsForUpstreams_mset:
  "mset ups = mset ups' \<Longrightarrow> GetStatsForUpstreams f ups = GetStatsForUpstreams f ups'"
  by (simp add: GetStatsForUpstreams_sums sum_list_map_mset [of ups ups'])

text \<open>The steps of two runs on the server of the examples.\<close>

lemma run_interleaved:
  "GetStatsForUpstreams_run (GetStatsFor test_runtime test_client) interleaved
     [''hg-backend'', ''lxr-backend'']
   = Some \<lparr>Total = 4, Up = 3, Down = 1\<rparr>"
  by (simp add: GetStatsForUpstreams_run_def interleaved_def init_state_def step_def
      goroutine_step_def goroutine_return_def wait_returns_def read_counters_def
      uint64_def int_of_uint64_def GetStatsFor_hg GetStatsFor_lxr)

lemma run_one_after_the_other:
  "GetStatsForUpstreams_run (GetStatsFor test_runtime test_client)
     [Launch, Run 0, Run 0, Run 0, Run 0, Launch, Run 1, Run 1, Run 1, Run 1]
     [''lxr-backend'', ''hg-backend'']
   = Some \<lparr>Total = 4, Up = 3, Down = 1\<rparr>"
  by (simp add: GetStatsForUpstreams_run_def init_state_def step_def
      goroutine_step_def goroutine_return_def wait_returns_def read_counters_def
      uint64_def int_of_uint64_def GetStatsFor_hg GetStatsFor_lxr)

lemma run_with_failure:
  "GetStatsForUpstreams_run (GetStatsFor test_runtime test_client)
     [Launch, Launch, Run 1, Run 0, Run 0, Run 0, Run 0]
     [''lxr-backend'', ''unreachable'']
   = Some \<lparr>Total = 2, Up = 2, Down = 0\<rparr>"
  by (simp add: GetStatsForUpstreams_run_def init_state_def step_def
      goroutine_step_def goroutine_return_def wait_returns_def read_counters_def
      uint64_def int_of_uint64_def GetStatsFor_unreachable GetStatsFor_lxr)

text \<open>
  C1. For every list of names and every assignment \<open>f\<close> of an outcome to each name,
  \<open>GetStatsForUpstreams\<close> returns the \<open>Stats\<close> value whose fields are the sums of the
  fields over the names whose fetch succeeds: every run of the goroutines up to the return
  of \<open>wg.Wait()\<close> returns it, there is such a run, and no run goes on for more than
  five steps for each name or stops before that return. A name whose fetch fails adds
  nothing, and the empty list gives zero in every field. The sums are those of Go's
  64-bit integers; where the sum of a field over the successes is in the range of
  \<open>int\<close>, the field of the result is that sum.
\<close>

theorem GetStatsForUpstreams_sums_successes:
  "GetStatsForUpstreams f ups =
     \<lparr>Total = sum_list (map Total (succeeded f ups)),
      Up = sum_list (map Up (succeeded f ups)),
      Down = sum_list (map Down (succeeded f ups))\<rparr>
   \<and> (\<forall>sched r. GetStatsForUpstreams_run f sched ups = Some r
         \<longrightarrow> r = GetStatsForUpstreams f ups)
   \<and> (\<exists>sched. GetStatsForUpstreams_run f sched ups = Some (GetStatsForUpstreams f ups))
   \<and> (\<forall>sched s. exec f sched (init_state ups) = Some s
         \<longrightarrow> length sched \<le> 5 * length ups
             \<and> (wait_returns s \<or> (\<exists>a s'. step f a s = Some s')))
   \<and> GetStatsForUpstreams f [] = \<lparr>Total = 0, Up = 0, Down = 0\<rparr>
   \<and> (\<forall>u err xs ys. ups = xs @ u # ys \<and> f u = Inl err
         \<longrightarrow> GetStatsForUpstreams f ups = GetStatsForUpstreams f (xs @ ys))
   \<and> (\<forall>field. (field = Total \<or> field = Up \<or> field = Down)
           \<and> - (2 ^ 63) \<le> sum_list (map (\<lambda>st. sint (field st)) (succeeded f ups))
           \<and> sum_list (map (\<lambda>st. sint (field st)) (succeeded f ups)) < 2 ^ 63
         \<longrightarrow> sint (field (GetStatsForUpstreams f ups))
             = sum_list (map (\<lambda>st. sint (field st)) (succeeded f ups)))"
proof -
  have t: "\<forall>sched s. exec f sched (init_state ups) = Some s
         \<longrightarrow> length sched \<le> 5 * length ups
             \<and> (wait_returns s \<or> (\<exists>a s'. step f a s = Some s'))"
  proof (intro allI impI)
    fix sched s
    assume e: "exec f sched (init_state ups) = Some s"
    from exec_length [OF e] have "length sched \<le> 5 * length ups"
      by (simp add: work_left_def init_state_def)
    moreover from init_inv e have "call_inv f ups s"
      by (rule exec_inv)
    then have "wait_returns s \<or> (\<exists>a s'. step f a s = Some s')"
      using progress [of f ups s] by blast
    ultimately show "length sched \<le> 5 * length ups
        \<and> (wait_returns s \<or> (\<exists>a s'. step f a s = Some s'))"
      by (rule conjI)
  qed
  have d: "\<forall>field. (field = Total \<or> field = Up \<or> field = Down)
           \<and> - (2 ^ 63) \<le> sum_list (map (\<lambda>st. sint (field st)) (succeeded f ups))
           \<and> sum_list (map (\<lambda>st. sint (field st)) (succeeded f ups)) < 2 ^ 63
         \<longrightarrow> sint (field (GetStatsForUpstreams f ups))
             = sum_list (map (\<lambda>st. sint (field st)) (succeeded f ups))"
  proof (intro allI impI, elim conjE)
    fix field :: "Stats \<Rightarrow> go_int"
    assume which: "field = Total \<or> field = Up \<or> field = Down"
      and lo: "- (2 ^ 63) \<le> sum_list (map (\<lambda>st. sint (field st)) (succeeded f ups))"
      and hi: "sum_list (map (\<lambda>st. sint (field st)) (succeeded f ups)) < 2 ^ 63"
    from which have "field (GetStatsForUpstreams f ups) = sum_list (map field (succeeded f ups))"
      by (auto simp: GetStatsForUpstreams_succeeded)
    with sint_sum_list_exact [OF lo hi]
    show "sint (field (GetStatsForUpstreams f ups))
        = sum_list (map (\<lambda>st. sint (field st)) (succeeded f ups))"
      by simp
  qed
  have a: "\<forall>sched r. GetStatsForUpstreams_run f sched ups = Some r
      \<longrightarrow> r = GetStatsForUpstreams f ups"
    using run_returns_GetStatsForUpstreams by blast
  have b: "GetStatsForUpstreams f [] = \<lparr>Total = 0, Up = 0, Down = 0\<rparr>"
    by (simp add: GetStatsForUpstreams_sums)
  have c: "\<forall>u err xs ys. ups = xs @ u # ys \<and> f u = Inl err
      \<longrightarrow> GetStatsForUpstreams f ups = GetStatsForUpstreams f (xs @ ys)"
    by (auto simp: GetStatsForUpstreams_succeeded succeeded_failure)
  from GetStatsForUpstreams_succeeded [of f ups] a run_exists [of f ups] t b c d
  show ?thesis by (intro conjI)
qed

theorem GetStatsForUpstreams_sums_successes_witness:
  "GetStatsFor test_runtime test_client ''lxr-backend'' = Inr \<lparr>Total = 2, Up = 2, Down = 0\<rparr>
   \<and> GetStatsFor test_runtime test_client ''unreachable''
       = Inl (SendingRequest (External ''connection refused''))
   \<and> GetStatsForUpstreams (GetStatsFor test_runtime test_client)
         [''lxr-backend'', ''unreachable'']
       = \<lparr>Total = 2, Up = 2, Down = 0\<rparr>
   \<and> GetStatsForUpstreams (GetStatsFor test_runtime test_client) [''lxr-backend'']
       = \<lparr>Total = 2, Up = 2, Down = 0\<rparr>"
proof -
  let ?f = "GetStatsFor test_runtime test_client"
  note inst = GetStatsForUpstreams_sums_successes [of ?f "[''lxr-backend'', ''unreachable'']"]
  from inst have "\<And>sched r.
      GetStatsForUpstreams_run ?f sched [''lxr-backend'', ''unreachable''] = Some r
      \<Longrightarrow> r = GetStatsForUpstreams ?f [''lxr-backend'', ''unreachable'']"
    by blast
  from this [OF run_with_failure]
  have r: "GetStatsForUpstreams ?f [''lxr-backend'', ''unreachable'']
      = \<lparr>Total = 2, Up = 2, Down = 0\<rparr>"
    by simp
  have "[''lxr-backend'', ''unreachable''] = [''lxr-backend''] @ ''unreachable'' # []"
    by simp
  with inst GetStatsFor_unreachable
  have "GetStatsForUpstreams ?f [''lxr-backend'', ''unreachable'']
      = GetStatsForUpstreams ?f ([''lxr-backend''] @ [])"
    by blast
  with r GetStatsFor_lxr GetStatsFor_unreachable show ?thesis by simp
qed

text \<open>
  C4. With the outcome of each name fixed, \<open>GetStatsForUpstreams\<close> returns the same
  \<open>Stats\<close> value on every permutation of the list of names and under every schedule of
  the goroutines.
\<close>

theorem GetStatsForUpstreams_order_independent:
  assumes "mset ups = mset ups'"
  shows "GetStatsForUpstreams f ups = GetStatsForUpstreams f ups'
     \<and> (\<forall>sched sched' r r'.
           GetStatsForUpstreams_run f sched ups = Some r
           \<and> GetStatsForUpstreams_run f sched' ups' = Some r'
         \<longrightarrow> r = r')"
proof -
  have e: "GetStatsForUpstreams f ups = GetStatsForUpstreams f ups'"
    using assms by (rule GetStatsForUpstreams_mset)
  have "r = r'"
    if "GetStatsForUpstreams_run f sched ups = Some r"
      and "GetStatsForUpstreams_run f sched' ups' = Some r'"
    for sched sched' r r'
    using that e run_returns_GetStatsForUpstreams [of f sched ups r]
      run_returns_GetStatsForUpstreams [of f sched' ups' r']
    by simp
  with e show ?thesis by blast
qed

theorem GetStatsForUpstreams_order_independent_witness:
  "mset [''hg-backend'', ''lxr-backend''] = mset [''lxr-backend'', ''hg-backend'']
   \<and> GetStatsForUpstreams (GetStatsFor test_runtime test_client)
         [''hg-backend'', ''lxr-backend'']
       = GetStatsForUpstreams (GetStatsFor test_runtime test_client)
           [''lxr-backend'', ''hg-backend'']
   \<and> GetStatsForUpstreams_run (GetStatsFor test_runtime test_client) interleaved
         [''hg-backend'', ''lxr-backend'']
       = GetStatsForUpstreams_run (GetStatsFor test_runtime test_client)
           [Launch, Run 0, Run 0, Run 0, Run 0, Launch, Run 1, Run 1, Run 1, Run 1]
           [''lxr-backend'', ''hg-backend'']"
proof -
  have p: "mset [''hg-backend'', ''lxr-backend''] = mset [''lxr-backend'', ''hg-backend'']"
    by (simp add: add_mset_commute)
  from GetStatsForUpstreams_order_independent
    [OF p, of "GetStatsFor test_runtime test_client"]
  have "GetStatsForUpstreams (GetStatsFor test_runtime test_client)
         [''hg-backend'', ''lxr-backend'']
       = GetStatsForUpstreams (GetStatsFor test_runtime test_client)
           [''lxr-backend'', ''hg-backend'']"
    by blast
  with p run_interleaved run_one_after_the_other show ?thesis by simp
qed

subsection \<open>The invariant of Stats values\<close>

lemma stats_inv_uint:
  "stats_inv s \<longleftrightarrow>
     uint (Up s) + uint (Down s) = uint (Total s) \<and> uint (Total s) < 2 ^ 63"
proof
  assume i: "stats_inv s"
  then have t: "0 \<le> sint (Total s)" and u: "0 \<le> sint (Up s)" and d: "0 \<le> sint (Down s)"
    and e: "sint (Up s) + sint (Down s) = sint (Total s)"
    by (simp_all add: stats_inv_def)
  note tb = sint_nonneg_uint [OF t]
  from e have "uint (Up s) + uint (Down s) = uint (Total s)"
    by (simp only: sint_uint_small [OF tb] sint_uint_small [OF sint_nonneg_uint [OF u]]
        sint_uint_small [OF sint_nonneg_uint [OF d]])
  with tb show "uint (Up s) + uint (Down s) = uint (Total s) \<and> uint (Total s) < 2 ^ 63"
    by (rule conjI [rotated])
next
  assume a: "uint (Up s) + uint (Down s) = uint (Total s) \<and> uint (Total s) < 2 ^ 63"
  then have e: "uint (Up s) + uint (Down s) = uint (Total s)"
    and t: "uint (Total s) < 2 ^ 63"
    by simp_all
  have "0 \<le> uint (Up s)" and "0 \<le> uint (Down s)"
    by simp_all
  with e t have u: "uint (Up s) < 2 ^ 63" and d: "uint (Down s) < 2 ^ 63"
    by linarith+
  show "stats_inv s"
    unfolding stats_inv_def sint_uint_small [OF t] sint_uint_small [OF u]
      sint_uint_small [OF d]
    using e by simp
qed

lemma sum_uint_fields:
  assumes "\<forall>st\<in>set xs. stats_inv st"
  shows "sum_list (map (\<lambda>st. uint (Up st)) xs) + sum_list (map (\<lambda>st. uint (Down st)) xs)
       = sum_list (map (\<lambda>st. uint (Total st)) xs)
     \<and> sum_list (map (\<lambda>st. sint (Total st)) xs) = sum_list (map (\<lambda>st. uint (Total st)) xs)"
  using assms
proof (induction xs)
  case Nil
  show ?case by simp
next
  case (Cons st xs)
  from Cons.prems have i: "stats_inv st"
    by simp
  then have "uint (Up st) + uint (Down st) = uint (Total st)" and t: "uint (Total st) < 2 ^ 63"
    by (simp_all add: stats_inv_uint)
  moreover from Cons.prems have "\<forall>st\<in>set xs. stats_inv st"
    by simp
  ultimately show ?case
    using Cons.IH by (simp add: sint_uint_small [OF t])
qed

lemma stats_inv_sums:
  assumes each: "\<forall>st\<in>set xs. stats_inv st"
    and bound: "sum_list (map (\<lambda>st. sint (Total st)) xs) < 2 ^ 63"
  shows "stats_inv \<lparr>Total = sum_list (map Total xs), Up = sum_list (map Up xs),
     Down = sum_list (map Down xs)\<rparr>"
proof -
  let ?t = "sum_list (map (\<lambda>st. uint (Total st)) xs)"
  let ?u = "sum_list (map (\<lambda>st. uint (Up st)) xs)"
  let ?d = "sum_list (map (\<lambda>st. uint (Down st)) xs)"
  from sum_uint_fields [OF each] bound have s: "?u + ?d = ?t" and tb: "?t < 2 ^ 63"
    by simp_all
  have "0 \<le> ?u" and "0 \<le> ?d"
    by (rule sum_uint_nonneg)+
  with s tb have ub: "?u < 2 ^ 63" and db: "?d < 2 ^ 63"
    by linarith+
  show ?thesis
    using s tb
    by (simp add: stats_inv_uint uint_sum_small [OF tb] uint_sum_small [OF ub]
        uint_sum_small [OF db])
qed

lemma word_sums_fields:
  assumes "\<forall>st\<in>set xs. Up st + Down st = Total st"
  shows "sum_list (map Up xs) + sum_list (map Down xs) = sum_list (map Total xs)"
  using assms
proof (induction xs)
  case Nil
  show ?case by simp
next
  case (Cons st xs)
  from Cons.prems have h: "Up st + Down st = Total st"
    and "\<forall>st\<in>set xs. Up st + Down st = Total st"
    by simp_all
  from Cons.IH [OF this(2)] have "sum_list (map Total xs)
      = sum_list (map Up xs) + sum_list (map Down xs)"
    by simp
  with h [symmetric] show ?case
    by (simp add: add.assoc add.left_commute)
qed

lemma calculateStatsFor_inv:
  assumes "length (Peers res) < 2 ^ 63" and "calculateStatsFor u res = Inr st"
  shows "stats_inv st"
proof -
  let ?ps = "Peers res"
  let ?u = "length (filter (\<lambda>p. State p = ''up'') ?ps)"
  let ?d = "length (filter (\<lambda>p. State p \<noteq> ''up'') ?ps)"
  from assms(2) have ne: "?ps \<noteq> []"
    by (auto simp: calculateStatsFor_empty)
  have split: "?u + ?d = length ?ps"
    by (rule up_down_split)
  with assms(1) have ub: "?u < 2 ^ 63" and db: "?d < 2 ^ 63"
    by linarith+
  from assms(2) have st: "st = \<lparr>Total = of_nat (length ?ps), Up = of_nat ?u, Down = of_nat ?d\<rparr>"
    by (simp add: calculateStatsFor_value [OF ne])
  have "int ?u + int ?d = int (length ?ps)"
    using split by linarith
  moreover have "int (length ?ps) < 2 ^ 63"
    using assms(1) by (simp only: int_less_pow63)
  ultimately show ?thesis
    by (simp add: st stats_inv_uint uint_of_nat_small [OF assms(1)]
        uint_of_nat_small [OF ub] uint_of_nat_small [OF db])
qed

lemma get_decodes:
  "get rt c unmarshal url = Inr data \<Longrightarrow> \<exists>body. unmarshal body = Inr data"
  by (auto simp: get_def split: sum.splits if_splits)

lemma GetStatsFor_inv:
  assumes slices: "\<forall>body res. Unmarshal_responseUpstream rt body = Inr res
      \<longrightarrow> length (Peers res) < 2 ^ 63"
    and r: "GetStatsFor rt c u = Inr st"
  shows "stats_inv st"
proof -
  from r obtain res where g: "get rt c (Unmarshal_responseUpstream rt)
      (baseURL c @ ''/api/'' @ format_d (version c) @ ''/http/upstreams/'' @ u) = Inr res"
    and cs: "calculateStatsFor u res = Inr st"
    by (auto simp: GetStatsFor_def split: sum.splits)
  from get_decodes [OF g] slices have "length (Peers res) < 2 ^ 63"
    by blast
  then show ?thesis using cs by (rule calculateStatsFor_inv)
qed

lemma succeeded_set:
  "st \<in> set (succeeded f ups) \<Longrightarrow> \<exists>u. f u = Inr st"
  by (auto simp: succeeded_def split: sum.splits)

subsection \<open>The hostname resolver\<close>

lemma Split_hyphen_Nil: "Split [] ''-'' = [[]]"
  by (simp add: Split.simps)

lemma Split_hyphen_Cons:
  "Split (x # xs) ''-'' =
     (if x = CHR ''-'' then [] # Split xs ''-''
      else (case Split xs ''-'' of [] \<Rightarrow> [[x]] | a # as \<Rightarrow> (x # a) # as))"
  by (subst Split.simps) (simp split: list.splits)

lemma index0_Split:
  "index0 (Split zone ''-'') = Returns (takeWhile (\<lambda>ch. ch \<noteq> CHR ''-'') zone)"
proof (induction zone)
  case Nil
  show ?case by (simp add: Split_hyphen_Nil index0_def)
next
  case (Cons x xs)
  show ?case
  proof (cases "x = CHR ''-''")
    case True
    then show ?thesis by (simp add: Split_hyphen_Cons index0_def)
  next
    case False
    from Cons.IH obtain a as where "Split xs ''-'' = a # as"
      and "a = takeWhile (\<lambda>ch. ch \<noteq> CHR ''-'') xs"
      by (auto simp: index0_def split: list.splits)
    with False show ?thesis by (simp add: Split_hyphen_Cons index0_def)
  qed
qed

lemma takeWhile_no_hyphen:
  "CHR ''-'' \<notin> set zone \<Longrightarrow> takeWhile (\<lambda>ch. ch \<noteq> CHR ''-'') zone = zone"
  by (rule takeWhile_eq_all_conv [THEN iffD2]) auto

lemma range_body_zone_host:
  "range_body hostname hostUpstreams entry =
     Returns (if zone_host (snd entry) = Some hostname
              then hostUpstreams(hostname \<mapsto>
                     (case hostUpstreams hostname of None \<Rightarrow> [] | Some ux \<Rightarrow> ux) @ [fst entry])
              else hostUpstreams)"
  by (simp add: range_body_def zone_host_def index0_Split
      split: go_value.splits option.splits)

lemma range_loop_matching:
  "range_loop hostname m hostUpstreams =
     Returns (if matching hostname m = [] then hostUpstreams
              else hostUpstreams(hostname \<mapsto>
                     (case hostUpstreams hostname of None \<Rightarrow> [] | Some ux \<Rightarrow> ux)
                       @ matching hostname m))"
proof (induction m arbitrary: hostUpstreams)
  case Nil
  show ?case by (simp add: matching_def)
next
  case (Cons entry m)
  show ?case
    by (simp add: range_body_zone_host Cons.IH matching_def)
qed

lemma hostnameUpstreamsFromResponse_VMap:
  "hostnameUpstreamsFromResponse hostname (VMap m) =
     Returns (if matching hostname m = [] then Map.empty
              else [hostname \<mapsto> matching hostname m])"
  by (simp add: hostnameUpstreamsFromResponse_def range_loop_matching)

lemma hostnameUpstreamsFromResponse_not_map:
  "\<forall>m. res \<noteq> VMap m \<Longrightarrow> hostnameUpstreamsFromResponse hostname res = Panics"
  by (cases res) (simp_all add: hostnameUpstreamsFromResponse_def)

lemma set_matching:
  "set (matching hostname m) = {u. \<exists>v. (u, v) \<in> set m \<and> zone_host v = Some hostname}"
  by (auto simp: matching_def image_iff)

lemma zone_host_None:
  "zone_host v = None \<longleftrightarrow>
     (\<forall>val. v \<noteq> VMap val) \<or>
     (\<exists>val. v = VMap val \<and> (\<forall>zone. map_of val ''zone'' \<noteq> Some (VString zone)))"
  by (cases v) (auto simp: zone_host_def split: option.splits go_value.splits)

lemma matching_skip:
  "zone_host v = None \<Longrightarrow> matching hostname (m1 @ (u, v) # m2) = matching hostname (m1 @ m2)"
  by (simp add: matching_def)

lemma zone_host_example:
  "zone_host (VMap [(''zone'', VString ''foo.example.com-demo-backend'')]) = Some ''foo.example.com''"
  "zone_host (VMap [(''zone'', VString ''bar.example.com-trac-backend'')]) = Some ''bar.example.com''"
  "zone_host (VMap [(''zone'', VString ''bar.example.org-hg-backend'')]) = Some ''bar.example.org''"
  "zone_host (VMap [(''zone'', VString ''bar.example.org-lxr-backend'')]) = Some ''bar.example.org''"
  by (simp_all add: zone_host_def)

lemma matching_example:
  "matching ''bar.example.org'' zone_entries = [''hg-backend'', ''lxr-backend'']"
  "matching ''bar.example.com'' zone_entries = [''trac-backend'']"
  "matching ''nginx.example.net'' zone_entries = []"
  by (simp_all add: zone_entries_def matching_def zone_host_example)

lemma get_zone_entries:
  "get test_runtime test_client (Unmarshal_interface test_runtime)
     (baseURL test_client @ ''/api/'' @ format_d (version test_client)
        @ ''/http/upstreams?fields=zone'')
   = Inr (VMap zone_entries)"
  unfolding test_client_url
  by (simp add: get_zones validResponseGetUpstreamsZones_def [symmetric])

text \<open>
  C3, as amended. The hostname derived from a zone string is the part before its first
  \<open>-\<close>, and the whole string when it contains no \<open>-\<close>: the zone
  \<open>bar.example.org-lxr-backend\<close> gives \<open>bar.example.org\<close>, and the zone
  \<open>demo-backend\<close>, which contains a \<open>-\<close>, gives \<open>demo\<close>. An entry of the
  zone map is kept under the requested hostname exactly when this part is the hostname.
\<close>

theorem hostname_derivation:
  "index0 (Split zone ''-'') = Returns (takeWhile (\<lambda>ch. ch \<noteq> CHR ''-'') zone)
   \<and> (CHR ''-'' \<notin> set zone \<longrightarrow> index0 (Split zone ''-'') = Returns zone)
   \<and> index0 (Split ''bar.example.org-lxr-backend'' ''-'') = Returns ''bar.example.org''
   \<and> index0 (Split ''demo-backend'' ''-'') = Returns ''demo''
   \<and> hostnameUpstreamsFromResponse hostname (VMap [(u, VMap [(''zone'', VString zone)])])
       = Returns (if takeWhile (\<lambda>ch. ch \<noteq> CHR ''-'') zone = hostname
                  then [hostname \<mapsto> [u]] else Map.empty)"
proof -
  have "hostnameUpstreamsFromResponse hostname (VMap [(u, VMap [(''zone'', VString zone)])])
       = Returns (if takeWhile (\<lambda>ch. ch \<noteq> CHR ''-'') zone = hostname
                  then [hostname \<mapsto> [u]] else Map.empty)"
    by (simp add: hostnameUpstreamsFromResponse_VMap matching_def zone_host_def)
  then show ?thesis
    by (simp add: index0_Split takeWhile_no_hyphen)
qed

theorem hostname_derivation_witness:
  "CHR ''-'' \<notin> set ''localhost'' \<and> index0 (Split ''localhost'' ''-'') = Returns ''localhost''"
proof -
  have h: "CHR ''-'' \<notin> set ''localhost''"
    by simp
  with hostname_derivation [of "''localhost''" "''localhost''" "''u''"]
  have "index0 (Split ''localhost'' ''-'') = Returns ''localhost''"
    by blast
  with h show ?thesis by (rule conjI)
qed

theorem hostname_derivation_counterexample:
  "index0 (Split ''demo-backend'' ''-'') \<noteq> Returns ''demo-backend''"
  by (simp add: index0_Split)

text \<open>
  C7. When the response decodes to a zone map, \<open>GetUpstreamsFor\<close> returns a mapping and
  no error. The mapping has no key but the requested hostname; under it are the names of
  the entries whose zone stands for the hostname, in the order the map is visited, so as
  a set exactly those names; and when no entry matches, the mapping is empty.
\<close>

theorem GetUpstreamsFor_matching:
  assumes "get rt c (Unmarshal_interface rt)
      (baseURL c @ ''/api/'' @ format_d (version c) @ ''/http/upstreams?fields=zone'')
    = Inr (VMap m)"
  shows "\<exists>hostUpstreams. GetUpstreamsFor rt c hostname = Returns (Inr hostUpstreams)
     \<and> dom hostUpstreams \<subseteq> {hostname}
     \<and> (matching hostname m = [] \<longrightarrow> hostUpstreams = Map.empty)
     \<and> (matching hostname m \<noteq> [] \<longrightarrow> hostUpstreams hostname = Some (matching hostname m))
     \<and> (\<forall>ux. hostUpstreams hostname = Some ux \<longrightarrow>
           set ux = {u. \<exists>v. (u, v) \<in> set m \<and> zone_host v = Some hostname})"
proof -
  let ?hu = "if matching hostname m = [] then Map.empty else [hostname \<mapsto> matching hostname m]"
  from assms have r: "GetUpstreamsFor rt c hostname = Returns (Inr ?hu)"
    by (simp add: GetUpstreamsFor_def hostnameUpstreamsFromResponse_VMap)
  have d: "dom ?hu \<subseteq> {hostname}"
    by simp
  have s: "\<forall>ux. ?hu hostname = Some ux \<longrightarrow>
      set ux = {u. \<exists>v. (u, v) \<in> set m \<and> zone_host v = Some hostname}"
    by (simp add: set_matching)
  have e: "matching hostname m = [] \<longrightarrow> ?hu = Map.empty"
    by simp
  have n: "matching hostname m \<noteq> [] \<longrightarrow> ?hu hostname = Some (matching hostname m)"
    by simp
  from r d e n s show ?thesis by blast
qed

theorem GetUpstreamsFor_matching_witness:
  "get test_runtime test_client (Unmarshal_interface test_runtime)
     (baseURL test_client @ ''/api/'' @ format_d (version test_client)
        @ ''/http/upstreams?fields=zone'')
   = Inr (VMap zone_entries)
   \<and> (\<exists>hostUpstreams.
         GetUpstreamsFor test_runtime test_client ''bar.example.org''
           = Returns (Inr hostUpstreams)
         \<and> hostUpstreams ''bar.example.org'' = Some [''hg-backend'', ''lxr-backend'']
         \<and> hostUpstreams ''bar.example.com'' = None)
   \<and> GetUpstreamsFor test_runtime test_client ''nginx.example.net''
       = Returns (Inr Map.empty)"
proof -
  from GetUpstreamsFor_matching [OF get_zone_entries, of "''bar.example.org''"]
  obtain hostUpstreams
    where r: "GetUpstreamsFor test_runtime test_client ''bar.example.org''
        = Returns (Inr hostUpstreams)"
      and d: "dom hostUpstreams \<subseteq> {''bar.example.org''}"
      and k: "hostUpstreams ''bar.example.org'' = Some [''hg-backend'', ''lxr-backend'']"
    by (auto simp: matching_example)
  from d have "hostUpstreams ''bar.example.com'' = None"
    by (auto simp: dom_def)
  with r k have a: "\<exists>hostUpstreams.
         GetUpstreamsFor test_runtime test_client ''bar.example.org''
           = Returns (Inr hostUpstreams)
         \<and> hostUpstreams ''bar.example.org'' = Some [''hg-backend'', ''lxr-backend'']
         \<and> hostUpstreams ''bar.example.com'' = None"
    by blast
  from GetUpstreamsFor_matching [OF get_zone_entries, of "''nginx.example.net''"]
  have "GetUpstreamsFor test_runtime test_client ''nginx.example.net''
       = Returns (Inr Map.empty)"
    by (auto simp: matching_example)
  with get_zone_entries a show ?thesis by blast
qed

text \<open>
  C10. When the body of the zone query decodes to a value that is not a map (an array, a
  string, a number, a boolean or \<open>nil\<close>), \<open>GetUpstreamsFor\<close> returns nothing, neither
  a mapping nor an error: the type assertion panics. On a map it never panics, and an
  entry that is not a map, or whose \<open>zone\<close> is missing or not a string, is passed
  over: the result is that of the map without the entry.
\<close>

theorem GetUpstreamsFor_panics_unless_map:
  "(get rt c (Unmarshal_interface rt)
        (baseURL c @ ''/api/'' @ format_d (version c) @ ''/http/upstreams?fields=zone'')
      = Inr res \<and> (\<forall>m. res \<noteq> VMap m)
     \<longrightarrow> GetUpstreamsFor rt c hostname = Panics)
   \<and> hostnameUpstreamsFromResponse hostname (VMap m) \<noteq> Panics
   \<and> ((\<forall>val. v \<noteq> VMap val)
        \<or> (\<exists>val. v = VMap val \<and> (\<forall>zone. map_of val ''zone'' \<noteq> Some (VString zone)))
     \<longrightarrow> hostnameUpstreamsFromResponse hostname (VMap (m1 @ (u, v) # m2))
         = hostnameUpstreamsFromResponse hostname (VMap (m1 @ m2)))"
proof -
  have a: "get rt c (Unmarshal_interface rt)
        (baseURL c @ ''/api/'' @ format_d (version c) @ ''/http/upstreams?fields=zone'')
      = Inr res \<and> (\<forall>m. res \<noteq> VMap m)
     \<longrightarrow> GetUpstreamsFor rt c hostname = Panics"
    by (simp add: GetUpstreamsFor_def hostnameUpstreamsFromResponse_not_map)
  have b: "hostnameUpstreamsFromResponse hostname (VMap m) \<noteq> Panics"
    by (simp add: hostnameUpstreamsFromResponse_VMap)
  have c: "(\<forall>val. v \<noteq> VMap val)
        \<or> (\<exists>val. v = VMap val \<and> (\<forall>zone. map_of val ''zone'' \<noteq> Some (VString zone)))
     \<longrightarrow> hostnameUpstreamsFromResponse hostname (VMap (m1 @ (u, v) # m2))
         = hostnameUpstreamsFromResponse hostname (VMap (m1 @ m2))"
    unfolding zone_host_None [symmetric]
    by (simp add: hostnameUpstreamsFromResponse_VMap matching_skip)
  from a b c show ?thesis by (intro conjI)
qed

lemma get_array:
  "get test_runtime (test_client\<lparr>httpClient := array_server\<rparr>)
     (Unmarshal_interface test_runtime)
     (baseURL (test_client\<lparr>httpClient := array_server\<rparr>) @ ''/api/''
        @ format_d (version (test_client\<lparr>httpClient := array_server\<rparr>))
        @ ''/http/upstreams?fields=zone'')
   = Inr (VSlice [])"
  by (rule get_test_runtime [where body = "''[]''"])
     (simp_all add: test_client_fields format_d_8 array_server_def test_decode_interface)

theorem GetUpstreamsFor_panics_unless_map_witness:
  "GetUpstreamsFor test_runtime (test_client\<lparr>httpClient := array_server\<rparr>)
     ''bar.example.org'' = Panics
   \<and> hostnameUpstreamsFromResponse ''bar.example.org''
         (VMap ([(''a'', VString ''bar.example.org-a'')]
                @ (''b'', VMap [(''zone'', VFloat64 0)])
                # [(''hg-backend'', VMap [(''zone'', VString ''bar.example.org-hg-backend'')])]))
       = hostnameUpstreamsFromResponse ''bar.example.org''
           (VMap ([(''a'', VString ''bar.example.org-a'')]
                  @ [(''hg-backend'', VMap [(''zone'', VString ''bar.example.org-hg-backend'')])]))"
proof -
  note p = GetUpstreamsFor_panics_unless_map
    [of test_runtime "test_client\<lparr>httpClient := array_server\<rparr>" "VSlice []"
      "''bar.example.org''" "[]" "VMap [(''zone'', VFloat64 0)]"
      "[(''a'', VString ''bar.example.org-a'')]" "''b''"
      "[(''hg-backend'', VMap [(''zone'', VString ''bar.example.org-hg-backend'')])]"]
  have n: "\<forall>m. VSlice [] \<noteq> VMap m"
    by simp
  from p get_array n
  have a: "GetUpstreamsFor test_runtime (test_client\<lparr>httpClient := array_server\<rparr>)
     ''bar.example.org'' = Panics"
    by blast
  have z: "\<exists>val. VMap [(''zone'', VFloat64 0)] = VMap val
      \<and> (\<forall>zone. map_of val ''zone'' \<noteq> Some (VString zone))"
    by simp
  from p z
  have "hostnameUpstreamsFromResponse ''bar.example.org''
         (VMap ([(''a'', VString ''bar.example.org-a'')]
                @ (''b'', VMap [(''zone'', VFloat64 0)])
                # [(''hg-backend'', VMap [(''zone'', VString ''bar.example.org-hg-backend'')])]))
       = hostnameUpstreamsFromResponse ''bar.example.org''
           (VMap ([(''a'', VString ''bar.example.org-a'')]
                  @ [(''hg-backend'', VMap [(''zone'', VString ''bar.example.org-hg-backend'')])]))"
    by blast
  with a show ?thesis by (rule conjI)
qed

subsection \<open>Stats for a host\<close>

lemma GetStatsForHost_cases:
  "GetStatsForHost rt c hostname =
     (case GetUpstreamsFor rt c hostname of
        Panics \<Rightarrow> Panics
      | Returns (Inl err) \<Rightarrow> Returns (Inl (GettingStatsForHost hostname err))
      | Returns (Inr upstreams) \<Rightarrow>
          (case upstreams hostname of
             None \<Rightarrow> Returns (Inl (NoStatData hostname))
           | Some ux \<Rightarrow> Returns (Inr (GetStatsForUpstreams (GetStatsFor rt c) ux))))"
  by (simp add: GetStatsForHost_def)

lemma GetStatsForHost_zone_map:
  assumes "get rt c (Unmarshal_interface rt)
      (baseURL c @ ''/api/'' @ format_d (version c) @ ''/http/upstreams?fields=zone'')
    = Inr (VMap m)"
  shows "GetStatsForHost rt c hostname =
     (if matching hostname m = [] then Returns (Inl (NoStatData hostname))
      else Returns (Inr (GetStatsForUpstreams (GetStatsFor rt c) (matching hostname m))))"
  using assms
  by (simp add: GetStatsForHost_def GetUpstreamsFor_def hostnameUpstreamsFromResponse_VMap)

lemma GetStatsForHost_transport:
  assumes "get rt c (Unmarshal_interface rt)
      (baseURL c @ ''/api/'' @ format_d (version c) @ ''/http/upstreams?fields=zone'')
    = Inl err"
  shows "GetStatsForHost rt c hostname =
     Returns (Inl (GettingStatsForHost hostname (RetrievingZones err)))"
  using assms by (simp add: GetStatsForHost_def GetUpstreamsFor_def)

lemma GetStatsFor_trac:
  "GetStatsFor test_runtime test_client ''trac-backend''
     = Inl (SendingRequest (External ''connection refused''))"
  unfolding GetStatsFor_def test_client_url
  by (simp add: get_def test_request test_client_fields test_server_def)

text \<open>
  C6. \<open>GetStatsForHost\<close> returns an error exactly when \<open>GetUpstreamsFor\<close> returns an
  error, which it wraps with the hostname, or returns a mapping without the hostname as a
  key, which gives the error for a host without data. When the key is there it returns
  the value of \<open>GetStatsForUpstreams\<close> on the names under the key and no error, whatever
  the fetches of these names do. (When \<open>GetUpstreamsFor\<close> panics, so does
  \<open>GetStatsForHost\<close>.)
\<close>

theorem GetStatsForHost_fails_iff:
  "((\<exists>err. GetStatsForHost rt c hostname = Returns (Inl err)) \<longleftrightarrow>
      (\<exists>err. GetUpstreamsFor rt c hostname = Returns (Inl err))
      \<or> (\<exists>upstreams. GetUpstreamsFor rt c hostname = Returns (Inr upstreams)
            \<and> upstreams hostname = None))
   \<and> (\<forall>err. GetUpstreamsFor rt c hostname = Returns (Inl err)
         \<longrightarrow> GetStatsForHost rt c hostname
             = Returns (Inl (GettingStatsForHost hostname err)))
   \<and> (\<forall>upstreams. GetUpstreamsFor rt c hostname = Returns (Inr upstreams)
           \<and> upstreams hostname = None
         \<longrightarrow> GetStatsForHost rt c hostname = Returns (Inl (NoStatData hostname)))
   \<and> (\<forall>upstreams ux. GetUpstreamsFor rt c hostname = Returns (Inr upstreams)
           \<and> upstreams hostname = Some ux
         \<longrightarrow> GetStatsForHost rt c hostname
             = Returns (Inr (GetStatsForUpstreams (GetStatsFor rt c) ux)))
   \<and> (GetStatsForHost rt c hostname = Panics \<longleftrightarrow> GetUpstreamsFor rt c hostname = Panics)
   \<and> (\<forall>m. get rt c (Unmarshal_interface rt)
             (baseURL c @ ''/api/'' @ format_d (version c) @ ''/http/upstreams?fields=zone'')
           = Inr (VMap m)
         \<longrightarrow> GetStatsForHost rt c hostname =
             (if matching hostname m = [] then Returns (Inl (NoStatData hostname))
              else Returns (Inr (GetStatsForUpstreams (GetStatsFor rt c)
                                  (matching hostname m)))))"
proof -
  have a: "(\<exists>err. GetStatsForHost rt c hostname = Returns (Inl err)) \<longleftrightarrow>
      (\<exists>err. GetUpstreamsFor rt c hostname = Returns (Inl err))
      \<or> (\<exists>upstreams. GetUpstreamsFor rt c hostname = Returns (Inr upstreams)
            \<and> upstreams hostname = None)"
    by (auto simp: GetStatsForHost_cases split: outcome.splits sum.splits option.splits)
  have b: "\<forall>err. GetUpstreamsFor rt c hostname = Returns (Inl err)
         \<longrightarrow> GetStatsForHost rt c hostname
             = Returns (Inl (GettingStatsForHost hostname err))"
    by (simp add: GetStatsForHost_cases)
  have d: "\<forall>upstreams. GetUpstreamsFor rt c hostname = Returns (Inr upstreams)
           \<and> upstreams hostname = None
         \<longrightarrow> GetStatsForHost rt c hostname = Returns (Inl (NoStatData hostname))"
    by (simp add: GetStatsForHost_cases)
  have e: "\<forall>upstreams ux. GetUpstreamsFor rt c hostname = Returns (Inr upstreams)
           \<and> upstreams hostname = Some ux
         \<longrightarrow> GetStatsForHost rt c hostname
             = Returns (Inr (GetStatsForUpstreams (GetStatsFor rt c) ux))"
    by (simp add: GetStatsForHost_cases)
  have p: "GetStatsForHost rt c hostname = Panics \<longleftrightarrow> GetUpstreamsFor rt c hostname = Panics"
    by (auto simp: GetStatsForHost_cases split: outcome.splits sum.splits option.splits)
  have z: "\<forall>m. get rt c (Unmarshal_interface rt)
             (baseURL c @ ''/api/'' @ format_d (version c) @ ''/http/upstreams?fields=zone'')
           = Inr (VMap m)
         \<longrightarrow> GetStatsForHost rt c hostname =
             (if matching hostname m = [] then Returns (Inl (NoStatData hostname))
              else Returns (Inr (GetStatsForUpstreams (GetStatsFor rt c)
                                  (matching hostname m))))"
    using GetStatsForHost_zone_map by blast
  from a b d e p z show ?thesis by (intro conjI)
qed

theorem GetStatsForHost_fails_iff_witness:
  "GetStatsForHost test_runtime test_client ''bar.example.org''
     = Returns (Inr \<lparr>Total = 4, Up = 3, Down = 1\<rparr>)
   \<and> GetStatsForHost test_runtime test_client ''nginx.example.net''
       = Returns (Inl (NoStatData ''nginx.example.net''))
   \<and> GetStatsFor test_runtime test_client ''trac-backend''
       = Inl (SendingRequest (External ''connection refused''))
   \<and> GetStatsForHost test_runtime test_client ''bar.example.com''
       = Returns (Inr \<lparr>Total = 0, Up = 0, Down = 0\<rparr>)"
proof -
  let ?f = "GetStatsFor test_runtime test_client"
  have s1: "GetStatsForUpstreams ?f [''hg-backend'', ''lxr-backend'']
      = \<lparr>Total = 4, Up = 3, Down = 1\<rparr>"
    by (simp add: GetStatsForUpstreams_def read_counters_def uint64_def int_of_uint64_def
        GetStatsFor_hg GetStatsFor_lxr)
  have s2: "GetStatsForUpstreams ?f [''trac-backend''] = \<lparr>Total = 0, Up = 0, Down = 0\<rparr>"
    by (simp add: GetStatsForUpstreams_def read_counters_def uint64_def int_of_uint64_def
        GetStatsFor_trac)
  from GetStatsForHost_fails_iff [of test_runtime test_client "''bar.example.org''"]
    get_zone_entries
  have a: "GetStatsForHost test_runtime test_client ''bar.example.org''
     = Returns (Inr \<lparr>Total = 4, Up = 3, Down = 1\<rparr>)"
    by (simp add: matching_example s1)
  from GetStatsForHost_fails_iff [of test_runtime test_client "''nginx.example.net''"]
    get_zone_entries
  have b: "GetStatsForHost test_runtime test_client ''nginx.example.net''
       = Returns (Inl (NoStatData ''nginx.example.net''))"
    by (simp add: matching_example)
  from GetStatsForHost_fails_iff [of test_runtime test_client "''bar.example.com''"]
    get_zone_entries
  have d: "GetStatsForHost test_runtime test_client ''bar.example.com''
       = Returns (Inr \<lparr>Total = 0, Up = 0, Down = 0\<rparr>)"
    by (simp add: matching_example s2)
  from a b GetStatsFor_trac d show ?thesis by (intro conjI)
qed

subsection \<open>The constructor\<close>

lemma apply_opts_append:
  "apply_opts (xs @ ys) c =
     (case apply_opts xs c of Inl err \<Rightarrow> Inl err | Inr c' \<Rightarrow> apply_opts ys c')"
  by (induction xs arbitrary: c) (simp_all split: sum.splits)

lemma WithVersion_supported:
  "(\<exists>c'. WithVersion v c = Inr c') \<longleftrightarrow> v \<in> {4, 5, 6, 7, 8}"
  by (auto simp: WithVersion_def)

text \<open>
  C8, as amended. \<open>NewClient\<close> fails on the empty base URL and on no other: every
  non-empty string, well-formed or not, is taken as it is. \<open>WithVersion\<close> succeeds, and
  sets the version, exactly for the values 4, 5, 6, 7 and 8, so it fails for 9 and for 99.
  The options are applied in order, each to the client the one before it left, and the
  first one that fails ends the construction with its error. Without options the client
  has version 8.
\<close>

theorem NewClient_validation:
  "NewClient rt [] opts = Inl InvalidBaseURL
   \<and> (base \<noteq> [] \<longrightarrow>
        NewClient rt base [] = Inr \<lparr>version = 8, baseURL = base, httpClient = DefaultClient rt\<rparr>)
   \<and> ((\<exists>c'. WithVersion v c = Inr c') \<longleftrightarrow> v \<in> {4, 5, 6, 7, 8})
   \<and> (v \<in> {4, 5, 6, 7, 8} \<longrightarrow> WithVersion v c = Inr (c\<lparr>version := v\<rparr>))
   \<and> (v \<notin> {4, 5, 6, 7, 8} \<longrightarrow> WithVersion v c = Inl (UnsupportedVersion v))
   \<and> WithVersion 9 c = Inl (UnsupportedVersion 9)
   \<and> WithVersion 99 c = Inl (UnsupportedVersion 99)
   \<and> (base \<noteq> [] \<and> NewClient rt base before = Inr c1 \<and> opt c1 = Inl err
        \<longrightarrow> NewClient rt base (before @ opt # after) = Inl err)
   \<and> (base \<noteq> [] \<and> NewClient rt base before = Inr c1 \<and> opt c1 = Inr c2
        \<longrightarrow> NewClient rt base (before @ [opt]) = Inr c2)
   \<and> (base \<noteq> [] \<longrightarrow> NewClient rt base [WithVersion 99] = Inl (UnsupportedVersion 99))"
  by (auto simp: NewClient_def WithVersion_def apply_opts_append)

theorem NewClient_validation_witness:
  "''http://nginx'' \<noteq> []
   \<and> NewClient test_runtime ''http://nginx'' []
       = Inr \<lparr>version = 8, baseURL = ''http://nginx'', httpClient = test_server\<rparr>
   \<and> NewClient test_runtime ''http://nginx'' [WithVersion 5]
       = Inr \<lparr>version = 5, baseURL = ''http://nginx'', httpClient = test_server\<rparr>
   \<and> NewClient test_runtime ''http://nginx'' ([WithVersion 5] @ WithVersion 9 # [WithVersion 6])
       = Inl (UnsupportedVersion 9)
   \<and> NewClient test_runtime ''http://nginx'' [WithVersion 99] = Inl (UnsupportedVersion 99)"
proof -
  let ?c8 = "\<lparr>version = 8, baseURL = ''http://nginx'', httpClient = test_server\<rparr>"
  let ?c5 = "\<lparr>version = 5, baseURL = ''http://nginx'', httpClient = test_server\<rparr>"
  have ne: "''http://nginx'' \<noteq> []"
    by simp
  have dc: "DefaultClient test_runtime = test_server"
    by (simp add: test_runtime_def)
  note i1 = NewClient_validation
    [of test_runtime "[]" "''http://nginx''" 5 ?c8 "[]" ?c8 "WithVersion 5"
      "UnsupportedVersion 9" "[]" ?c5]
  note i2 = NewClient_validation
    [of test_runtime "[]" "''http://nginx''" 9 ?c5 "[WithVersion 5]" ?c5 "WithVersion 9"
      "UnsupportedVersion 9" "[WithVersion 6]" ?c5]
  from i1 ne dc have a: "NewClient test_runtime ''http://nginx'' [] = Inr ?c8"
    by simp
  from i1 have w5: "WithVersion 5 ?c8 = Inr ?c5"
    by simp
  from i1 ne a w5
  have b: "NewClient test_runtime ''http://nginx'' [WithVersion 5] = Inr ?c5"
    by simp
  from i2 have w9: "WithVersion 9 ?c5 = Inl (UnsupportedVersion 9)"
    by blast
  from i2 ne b w9
  have d: "NewClient test_runtime ''http://nginx'' ([WithVersion 5] @ WithVersion 9 # [WithVersion 6])
       = Inl (UnsupportedVersion 9)"
    by blast
  from i2 ne
  have e: "NewClient test_runtime ''http://nginx'' [WithVersion 99] = Inl (UnsupportedVersion 99)"
    by blast
  from ne a b d e show ?thesis by (intro conjI)
qed

theorem NewClient_validation_counterexample:
  "NewClient test_runtime ''::'' []
     = Inr \<lparr>version = 8, baseURL = ''::'', httpClient = test_server\<rparr>
   \<and> GetStatsFor test_runtime \<lparr>version = 8, baseURL = ''::'', httpClient = test_server\<rparr>
        ''hg-backend''
       = Inl (CreatingRequest (External ''missing protocol scheme''))"
  by (simp add: NewClient_def GetStatsFor_def get_def test_runtime_def)

lemma test_runtime_slices:
  "\<forall>body res. Unmarshal_responseUpstream test_runtime body = Inr res
     \<longrightarrow> length (Peers res) < 2 ^ 63"
  by (auto simp: test_runtime_def Peers_upstream_of_states split: if_splits)

lemma succeeded_example:
  "succeeded (GetStatsFor test_runtime test_client)
     [''hg-backend'', ''unreachable'', ''lxr-backend'']
   = [\<lparr>Total = 2, Up = 1, Down = 1\<rparr>, \<lparr>Total = 2, Up = 2, Down = 0\<rparr>]"
  by (simp add: succeeded_def GetStatsFor_hg GetStatsFor_lxr GetStatsFor_unreachable)

text \<open>
  C9. Every \<open>Stats\<close> value the program produces has \<open>Up + Down = Total\<close> and no
  negative field. \<open>calculateStatsFor\<close> returns such values (on a peer list of a length
  a Go slice can have), hence so does \<open>GetStatsFor\<close>. The merge of
  \<open>GetStatsForUpstreams\<close> keeps \<open>Up + Down = Total\<close> in Go's arithmetic whatever
  fails, and keeps the whole invariant as long as the sum of the totals is below
  \<open>2 ^ 63\<close>, the range of Go's \<open>int\<close>; so does \<open>GetStatsForHost\<close>.
\<close>

theorem Stats_invariant:
  "(\<forall>u res st. length (Peers res) < 2 ^ 63 \<and> calculateStatsFor u res = Inr st
       \<longrightarrow> stats_inv st)
   \<and> ((\<forall>st\<in>set (succeeded f ups). Up st + Down st = Total st)
       \<longrightarrow> Up (GetStatsForUpstreams f ups) + Down (GetStatsForUpstreams f ups)
           = Total (GetStatsForUpstreams f ups))
   \<and> ((\<forall>st\<in>set (succeeded f ups). stats_inv st)
        \<and> sum_list (map (\<lambda>st. sint (Total st)) (succeeded f ups)) < 2 ^ 63
       \<longrightarrow> stats_inv (GetStatsForUpstreams f ups)
           \<and> (\<forall>sched r. GetStatsForUpstreams_run f sched ups = Some r \<longrightarrow> stats_inv r))
   \<and> ((\<forall>body res. Unmarshal_responseUpstream rt body = Inr res
          \<longrightarrow> length (Peers res) < 2 ^ 63)
       \<longrightarrow> (\<forall>u st. GetStatsFor rt c u = Inr st \<longrightarrow> stats_inv st)
           \<and> (\<forall>st\<in>set (succeeded (GetStatsFor rt c) ups). stats_inv st)
           \<and> (\<forall>upstreams ux st.
                 GetUpstreamsFor rt c hostname = Returns (Inr upstreams)
                 \<and> upstreams hostname = Some ux
                 \<and> sum_list (map (\<lambda>st. sint (Total st)) (succeeded (GetStatsFor rt c) ux))
                     < 2 ^ 63
                 \<and> GetStatsForHost rt c hostname = Returns (Inr st)
               \<longrightarrow> stats_inv st))"
proof -
  have a: "\<forall>u res st. length (Peers res) < 2 ^ 63 \<and> calculateStatsFor u res = Inr st
       \<longrightarrow> stats_inv st"
    using calculateStatsFor_inv by blast
  have b: "(\<forall>st\<in>set (succeeded f ups). Up st + Down st = Total st)
       \<longrightarrow> Up (GetStatsForUpstreams f ups) + Down (GetStatsForUpstreams f ups)
           = Total (GetStatsForUpstreams f ups)"
    by (simp add: GetStatsForUpstreams_succeeded word_sums_fields)
  have m: "stats_inv (GetStatsForUpstreams g xs)"
    if "\<forall>st\<in>set (succeeded g xs). stats_inv st"
      and "sum_list (map (\<lambda>st. sint (Total st)) (succeeded g xs)) < 2 ^ 63"
    for g xs
    unfolding GetStatsForUpstreams_succeeded using that by (rule stats_inv_sums)
  have d: "(\<forall>st\<in>set (succeeded f ups). stats_inv st)
        \<and> sum_list (map (\<lambda>st. sint (Total st)) (succeeded f ups)) < 2 ^ 63
       \<longrightarrow> stats_inv (GetStatsForUpstreams f ups)
           \<and> (\<forall>sched r. GetStatsForUpstreams_run f sched ups = Some r \<longrightarrow> stats_inv r)"
    using m [of f ups] run_returns_GetStatsForUpstreams [of f _ ups] by blast
  have e: "(\<forall>u st. GetStatsFor rt c u = Inr st \<longrightarrow> stats_inv st)
           \<and> (\<forall>st\<in>set (succeeded (GetStatsFor rt c) ups). stats_inv st)
           \<and> (\<forall>upstreams ux st.
                 GetUpstreamsFor rt c hostname = Returns (Inr upstreams)
                 \<and> upstreams hostname = Some ux
                 \<and> sum_list (map (\<lambda>st. sint (Total st)) (succeeded (GetStatsFor rt c) ux))
                     < 2 ^ 63
                 \<and> GetStatsForHost rt c hostname = Returns (Inr st)
               \<longrightarrow> stats_inv st)"
    if slices: "\<forall>body res. Unmarshal_responseUpstream rt body = Inr res
          \<longrightarrow> length (Peers res) < 2 ^ 63"
  proof -
    have one: "\<forall>u st. GetStatsFor rt c u = Inr st \<longrightarrow> stats_inv st"
      using GetStatsFor_inv [OF slices] by blast
    have each: "\<forall>st\<in>set (succeeded (GetStatsFor rt c) xs). stats_inv st" for xs
      using one succeeded_set [of _ "GetStatsFor rt c" xs] by blast
    have host: "stats_inv st"
      if "GetUpstreamsFor rt c hostname = Returns (Inr upstreams)"
        and "upstreams hostname = Some ux"
        and "sum_list (map (\<lambda>st. sint (Total st)) (succeeded (GetStatsFor rt c) ux)) < 2 ^ 63"
        and "GetStatsForHost rt c hostname = Returns (Inr st)"
      for upstreams ux st
    proof -
      from that(1,2,4) have "st = GetStatsForUpstreams (GetStatsFor rt c) ux"
        by (simp add: GetStatsForHost_cases)
      with m [OF each that(3)] show ?thesis by simp
    qed
    from one each [of ups] host show ?thesis by blast
  qed
  from a b d e show ?thesis by blast
qed

theorem Stats_invariant_witness:
  "succeeded (GetStatsFor test_runtime test_client)
     [''hg-backend'', ''unreachable'', ''lxr-backend'']
     = [\<lparr>Total = 2, Up = 1, Down = 1\<rparr>, \<lparr>Total = 2, Up = 2, Down = 0\<rparr>]
   \<and> stats_inv \<lparr>Total = 2, Up = 1, Down = 1\<rparr>
   \<and> stats_inv \<lparr>Total = 2, Up = 2, Down = 0\<rparr>
   \<and> GetStatsForUpstreams (GetStatsFor test_runtime test_client)
         [''hg-backend'', ''unreachable'', ''lxr-backend'']
       = \<lparr>Total = 4, Up = 3, Down = 1\<rparr>
   \<and> stats_inv (GetStatsForUpstreams (GetStatsFor test_runtime test_client)
         [''hg-backend'', ''unreachable'', ''lxr-backend''])"
proof -
  let ?f = "GetStatsFor test_runtime test_client"
  let ?ups = "[''hg-backend'', ''unreachable'', ''lxr-backend'']"
  note inst = Stats_invariant [of ?f ?ups test_runtime test_client "''bar.example.org''"]
  from inst test_runtime_slices
  have each: "\<forall>st\<in>set (succeeded ?f ?ups). stats_inv st"
    by blast
  then have two: "stats_inv \<lparr>Total = 2, Up = 1, Down = 1\<rparr>"
      "stats_inv \<lparr>Total = 2, Up = 2, Down = 0\<rparr>"
    by (simp_all add: succeeded_example)
  have bound: "sum_list (map (\<lambda>st. sint (Total st)) (succeeded ?f ?ups)) < 2 ^ 63"
    by (simp add: succeeded_example)
  from inst each bound have i: "stats_inv (GetStatsForUpstreams ?f ?ups)"
    by blast
  have v: "GetStatsForUpstreams ?f ?ups = \<lparr>Total = 4, Up = 3, Down = 1\<rparr>"
    by (simp add: GetStatsForUpstreams_succeeded succeeded_example)
  from succeeded_example two v i show ?thesis by (intro conjI)
qed

end
